theory Spec2Isabelle
  imports Complex_Main "HOL-Library.Sublist" "HOL-Library.Multiset"
begin

section \<open>JavaScript strings\<close>

text \<open>
  A JavaScript string is modelled as a \<^typ>\<open>string\<close>: the list of its code units, of which
  the model has the first 256. Only the built-in string operations that the review engine
  calls are defined, each with the result the language standard gives it.
\<close>

text \<open>\<^verbatim>\<open>s.indexOf(t)\<close>: the zero-based index of the first occurrence of \<open>t\<close>, or \<open>-1\<close>.\<close>

fun indexOfFrom :: "string \<Rightarrow> string \<Rightarrow> int \<Rightarrow> int" where
  "indexOfFrom [] t i = (if t = [] then i else - 1)"
| "indexOfFrom (c # cs) t i = (if prefix t (c # cs) then i else indexOfFrom cs t (i + 1))"

definition indexOf :: "string \<Rightarrow> string \<Rightarrow> int" where
  "indexOf s t = indexOfFrom s t 0"

text \<open>\<^verbatim>\<open>s.lastIndexOf(t)\<close>: the index of the last occurrence, or \<open>-1\<close>.\<close>

fun lastIndexOfFrom :: "string \<Rightarrow> string \<Rightarrow> int \<Rightarrow> int \<Rightarrow> int" where
  "lastIndexOfFrom [] t i found = (if t = [] then i else found)"
| "lastIndexOfFrom (c # cs) t i found =
     lastIndexOfFrom cs t (i + 1) (if prefix t (c # cs) then i else found)"

definition lastIndexOf :: "string \<Rightarrow> string \<Rightarrow> int" where
  "lastIndexOf s t = lastIndexOfFrom s t 0 (- 1)"

text \<open>\<^verbatim>\<open>s.includes(t)\<close>.\<close>

definition str_includes :: "string \<Rightarrow> string \<Rightarrow> bool" where
  "str_includes s t = (indexOf s t \<noteq> - 1)"

text \<open>\<^verbatim>\<open>s.startsWith(t)\<close>.\<close>

definition startsWith :: "string \<Rightarrow> string \<Rightarrow> bool" where
  "startsWith s t = prefix t s"

text \<open>\<^verbatim>\<open>s.slice(a, b)\<close> for \<open>0 \<le> a\<close> and \<open>0 \<le> b\<close>, the only way the source calls it.\<close>

definition slice :: "string \<Rightarrow> nat \<Rightarrow> nat \<Rightarrow> string" where
  "slice s a b = take (b - a) (drop a s)"

text \<open>
  \<^verbatim>\<open>s.split(/[\r\n]+/)\<close>: the pieces of \<open>s\<close> between the maximal runs of carriage returns
  and line feeds. A run at the start or at the end gives an empty first or last piece, and
  the result always has at least one piece.
\<close>

definition isLineBreak :: "char \<Rightarrow> bool" where
  "isLineBreak c = (c = CHR 0x0A \<or> c = CHR 0x0D)"

function splitLines :: "string \<Rightarrow> string \<Rightarrow> string list" where
  "splitLines piece [] = [piece]"
| "splitLines piece (c # cs) =
     (if isLineBreak c then piece # splitLines [] (dropWhile isLineBreak cs)
      else splitLines (piece @ [c]) cs)"
  by pat_completeness auto
termination
  by (relation "measure (\<lambda>(piece, s). length s)")
     (auto simp: less_Suc_eq_le length_dropWhile_le)

definition split_newlines :: "string \<Rightarrow> string list" where
  "split_newlines s = splitLines [] s"

text \<open>
  \<^verbatim>\<open>s.trim()\<close>: white space and line terminators are removed at both ends. Below 256 they
  are the code units 9 to 13, 32 and 160.
\<close>

definition isWhiteSpace :: "char \<Rightarrow> bool" where
  "isWhiteSpace c =
     (c = CHR 0x09 \<or> c = CHR 0x0A \<or> c = CHR 0x0B \<or> c = CHR 0x0C \<or> c = CHR 0x0D
      \<or> c = CHR 0x20 \<or> c = CHR 0xA0)"

definition trim :: "string \<Rightarrow> string" where
  "trim s = rev (dropWhile isWhiteSpace (rev (dropWhile isWhiteSpace s)))"

text \<open>
  \<^verbatim>\<open>s.toUpperCase()\<close> on the letters \<open>a\<close> to \<open>z\<close>. The source only compares the result with
  four constants made of \<open>A\<close> to \<open>Z\<close> and \<open>_\<close>; no other code unit below 256 turns into one
  of these letters, so the comparisons come out as in the source.
\<close>

definition upperChar :: "char \<Rightarrow> char" where
  "upperChar c =
     (case map_of (zip ''abcdefghijklmnopqrstuvwxyz'' ''ABCDEFGHIJKLMNOPQRSTUVWXYZ'') c of
        None \<Rightarrow> c
      | Some u \<Rightarrow> u)"

definition toUpperCase :: "string \<Rightarrow> string" where
  "toUpperCase s = map upperChar s"

text \<open>A non-negative integer written in decimal, as a template literal prints it.\<close>

definition digitChar :: "nat \<Rightarrow> char" where
  "digitChar d = ''0123456789'' ! d"

function showNat :: "nat \<Rightarrow> string" where
  "showNat n = (if n < 10 then [digitChar n] else showNat (n div 10) @ [digitChar (n mod 10)])"
  by pat_completeness auto
termination
  by (relation "measure id") auto

declare showNat.simps [simp del]

section \<open>JavaScript numbers\<close>

text \<open>
  A JavaScript number is a double of IEEE 754 (binary64): \<^verbatim>\<open>NaN\<close>, one of the two
  infinities, or a finite value, which is modelled as the real number it stands for. The
  doubles among the reals are the results of \<open>round64\<close> below; every arithmetic operation
  of the language computes the exact result and rounds it to the nearest double, a tie
  going to the double with the even significand. The two zeros are one value: the engine
  subtracts, divides by ten, takes \<^verbatim>\<open>Math.abs\<close>, \<^verbatim>\<open>Math.min\<close> and \<^verbatim>\<open>Math.max\<close> and compares,
  and none of these tells a zero from the other in a way that a later step can see.
\<close>

datatype number = NaN | PosInfinity | NegInfinity | Finite real

text \<open>The number of binary digits of a natural number.\<close>

fun bitLength :: "nat \<Rightarrow> nat" where
  "bitLength n = (if n = 0 then 0 else Suc (bitLength (n div 2)))"

declare bitLength.simps [simp del]

definition pow2 :: "int \<Rightarrow> real" where
  "pow2 k = (if 0 \<le> k then 2 ^ nat k else 1 / 2 ^ nat (- k))"

text \<open>The binary exponent of a positive real \<open>x\<close>: the \<open>e\<close> with \<open>2 ^ e \<le> x < 2 ^ (e + 1)\<close>.\<close>

definition ilog2 :: "real \<Rightarrow> int" where
  "ilog2 x = (if 1 \<le> x then int (bitLength (nat \<lfloor>x\<rfloor>)) - 1
              else - int (bitLength (nat (\<lceil>1 / x\<rceil> - 1))))"

text \<open>
  The distance between neighbouring doubles at \<open>x\<close>: a double has a significand of 53
  binary digits, and below \<open>2 ^ (- 1022)\<close> the doubles are subnormal and \<open>2 ^ (- 1074)\<close> apart.
\<close>

definition quantum :: "real \<Rightarrow> real" where
  "quantum x = pow2 (max (ilog2 \<bar>x\<bar>) (- 1022) - 52)"

definition roundHalfEven :: "real \<Rightarrow> int" where
  "roundHalfEven y =
     (let f = \<lfloor>y\<rfloor>; d = y - of_int f
      in if d < 1 / 2 then f else if 1 / 2 < d then f + 1 else if even f then f else f + 1)"

text \<open>The double nearest to a real number; a result of magnitude \<open>2 ^ 1024\<close> overflows.\<close>

definition round64 :: "real \<Rightarrow> number" where
  "round64 x =
     (if x = 0 then Finite 0
      else
        (let q = quantum x; r = of_int (roundHalfEven (x / q)) * q
         in if 2 ^ 1024 \<le> \<bar>r\<bar> then (if 0 < x then PosInfinity else NegInfinity)
            else Finite r))"

text \<open>The number that a decimal literal denotes, in a program or in a JSON text: \<open>decimal m k\<close>
  is the literal of the digits of \<open>m\<close> with \<open>k\<close> of them after the point.\<close>

definition decimal :: "int \<Rightarrow> nat \<Rightarrow> number" where
  "decimal m k = round64 (of_int m / 10 ^ k)"

text \<open>\<^verbatim>\<open>a < b\<close> on numbers: false when either is \<^verbatim>\<open>NaN\<close>.\<close>

fun lt :: "number \<Rightarrow> number \<Rightarrow> bool" where
  "lt (Finite x) (Finite y) = (x < y)"
| "lt (Finite x) PosInfinity = True"
| "lt NegInfinity (Finite y) = True"
| "lt NegInfinity PosInfinity = True"
| "lt _ _ = False"

text \<open>\<^verbatim>\<open>a - b\<close> on numbers.\<close>

fun sub64 :: "number \<Rightarrow> number \<Rightarrow> number" where
  "sub64 (Finite x) (Finite y) = round64 (x - y)"
| "sub64 (Finite x) PosInfinity = NegInfinity"
| "sub64 (Finite x) NegInfinity = PosInfinity"
| "sub64 PosInfinity (Finite y) = PosInfinity"
| "sub64 PosInfinity NegInfinity = PosInfinity"
| "sub64 NegInfinity (Finite y) = NegInfinity"
| "sub64 NegInfinity PosInfinity = NegInfinity"
| "sub64 _ _ = NaN"

text \<open>\<^verbatim>\<open>a / 10\<close>.\<close>

fun div10 :: "number \<Rightarrow> number" where
  "div10 (Finite x) = round64 (x / 10)"
| "div10 a = a"

fun mathAbs :: "number \<Rightarrow> number" where
  "mathAbs (Finite x) = Finite \<bar>x\<bar>"
| "mathAbs NegInfinity = PosInfinity"
| "mathAbs a = a"

text \<open>\<^verbatim>\<open>Math.min(a, b)\<close> and \<^verbatim>\<open>Math.max(a, b)\<close>: \<^verbatim>\<open>NaN\<close> when either argument is.\<close>

definition mathMin :: "number \<Rightarrow> number \<Rightarrow> number" where
  "mathMin a b = (if a = NaN \<or> b = NaN then NaN else if lt b a then b else a)"

definition mathMax :: "number \<Rightarrow> number \<Rightarrow> number" where
  "mathMax a b = (if a = NaN \<or> b = NaN then NaN else if lt a b then b else a)"

text \<open>
  A value that \<^verbatim>\<open>JSON.parse\<close> yields where a number is expected, or \<^verbatim>\<open>undefined\<close> for a
  field that is not there. An array or object is represented by the string that it converts
  to. The operators \<^verbatim>\<open>>\<close>, \<^verbatim>\<open>/\<close> and the functions of \<^verbatim>\<open>Math\<close> convert their operands with
  the language's \<^verbatim>\<open>ToNumber\<close>, whose reading of a string is the parameter \<open>stringToNumber\<close>.
\<close>

datatype JsValue =
    JsUndefined
  | JsNull
  | JsBoolean bool
  | JsNumber number
  | JsString string
  | JsObject string

fun toNumber :: "(string \<Rightarrow> number) \<Rightarrow> JsValue \<Rightarrow> number" where
  "toNumber stringToNumber JsUndefined = NaN"
| "toNumber stringToNumber JsNull = Finite 0"
| "toNumber stringToNumber (JsBoolean b) = (if b then Finite 1 else Finite 0)"
| "toNumber stringToNumber (JsNumber n) = n"
| "toNumber stringToNumber (JsString s) = stringToNumber s"
| "toNumber stringToNumber (JsObject s) = stringToNumber s"

section \<open>The parsed diff\<close>

text \<open>
  The position fixer reads the value that the library \<^verbatim>\<open>parse-git-diff\<close> returns. Its types
  are the library's: a diff has files, a file has chunks, a chunk of type \<^verbatim>\<open>Chunk\<close> or
  \<^verbatim>\<open>CombinedChunk\<close> has line changes and one of type \<^verbatim>\<open>BinaryFilesChunk\<close> has none. A line
  change is tagged by its \<^verbatim>\<open>type\<close>; an added line has \<^verbatim>\<open>lineAfter\<close>, a deleted line has
  \<^verbatim>\<open>lineBefore\<close>, an unchanged line has both and a message line has neither. The parser is
  a parameter of the model wherever the source calls it.
\<close>

datatype AnyLineChange =
    AddedLine number string
  | DeletedLine number string
  | UnchangedLine number number string
  | MessageLine string

fun content :: "AnyLineChange \<Rightarrow> string" where
  "content (AddedLine la c) = c"
| "content (DeletedLine lb c) = c"
| "content (UnchangedLine lb la c) = c"
| "content (MessageLine c) = c"

text \<open>The fields \<^verbatim>\<open>lineAfter\<close> and \<^verbatim>\<open>lineBefore\<close>; \<open>None\<close> is JavaScript's \<^verbatim>\<open>undefined\<close>.\<close>

fun lineAfter :: "AnyLineChange \<Rightarrow> number option" where
  "lineAfter (AddedLine la c) = Some la"
| "lineAfter (UnchangedLine lb la c) = Some la"
| "lineAfter _ = None"

fun lineBefore :: "AnyLineChange \<Rightarrow> number option" where
  "lineBefore (DeletedLine lb c) = Some lb"
| "lineBefore (UnchangedLine lb la c) = Some lb"
| "lineBefore _ = None"

fun isUnchangedLine :: "AnyLineChange \<Rightarrow> bool" where
  "isUnchangedLine (UnchangedLine lb la c) = True"
| "isUnchangedLine _ = False"

fun isAddedLine :: "AnyLineChange \<Rightarrow> bool" where
  "isAddedLine (AddedLine la c) = True"
| "isAddedLine _ = False"

fun isDeletedLine :: "AnyLineChange \<Rightarrow> bool" where
  "isDeletedLine (DeletedLine lb c) = True"
| "isDeletedLine _ = False"

datatype AnyChunk =
    Chunk "AnyLineChange list"
  | CombinedChunk "AnyLineChange list"
  | BinaryFilesChunk

record AnyFileChange =
  chunks :: "AnyChunk list"

record GitDiff =
  files :: "AnyFileChange list"

section \<open>Positions and threads\<close>

text \<open>
  The interfaces of \<^verbatim>\<open>types.ts\<close> and \<^verbatim>\<open>llm/types.ts\<close>. An optional field is an
  \<^typ>\<open>'a option\<close>, and so is the thread context of a thread, which the position fixer
  and the engine test before they use it. A field name that several interfaces share gets
  a prefix from its interface. A field of the type \<^verbatim>\<open>number\<close> is a \<^typ>\<open>number\<close>: the
  engine and the position fixer take their threads at these types. Objects are values: the
  model has no two positions that are one object.
\<close>

record Position =
  line :: number
  offset :: number
  snippet :: "string option"

record ThreadContext =
  tc_filePath :: string
  leftFileStart :: "Position option"
  leftFileEnd :: "Position option"
  rightFileStart :: "Position option"
  rightFileEnd :: "Position option"

record ReviewComment =
  rc_content :: string
  commentType :: number
  confidenceScore :: "number option"
  confidenceScoreJustification :: "string option"
  fixSuggestion :: "string option"
  issueType :: "string option"

record ReviewThread =
  comments :: "ReviewComment list"
  status :: number
  threadContext :: "ThreadContext option"

text \<open>What the source throws: a \<^verbatim>\<open>TypeError\<close> of the runtime, or the rejection of the
  promise of the injected review capability.\<close>

datatype error = TypeError | LlmFailure

section \<open>The position fixer (\<^verbatim>\<open>sanitize/commentLocator.ts\<close>)\<close>

fun chunkChanges :: "AnyChunk \<Rightarrow> AnyLineChange list" where
  "chunkChanges (Chunk cs) = cs"
| "chunkChanges (CombinedChunk cs) = cs"
| "chunkChanges BinaryFilesChunk = []"

definition getChangesFromDiff :: "GitDiff \<Rightarrow> AnyLineChange list" where
  "getChangesFromDiff d =
     (case files d of [] \<Rightarrow> [] | f # rest \<Rightarrow> concat (map chunkChanges (chunks f)))"

definition filterChanges :: "AnyLineChange list \<Rightarrow> string \<Rightarrow> bool \<Rightarrow> AnyLineChange list" where
  "filterChanges changes searchText shouldSearchRightSide =
     filter (\<lambda>change. str_includes (content change) searchText \<and>
               (isUnchangedLine change \<or>
                (if shouldSearchRightSide then isAddedLine change else isDeletedLine change)))
       changes"

definition getLineNumber :: "AnyLineChange \<Rightarrow> bool \<Rightarrow> number option" where
  "getLineNumber diffLineMeta isRightSide =
     (if isRightSide then lineAfter diffLineMeta else lineBefore diffLineMeta)"

text \<open>An undefined operand of a subtraction converts to \<^verbatim>\<open>NaN\<close>.\<close>

definition undefinedToNaN :: "number option \<Rightarrow> number" where
  "undefinedToNaN v = (case v of None \<Rightarrow> NaN | Some n \<Rightarrow> n)"

text \<open>
  The test \<^verbatim>\<open>Math.abs(current - n) < Math.abs(previous - n)\<close> of \<^verbatim>\<open>findClosestLine\<close> on the
  line numbers of two records, computed in doubles as the language does.
\<close>

definition closerThan :: "number option \<Rightarrow> number option \<Rightarrow> number \<Rightarrow> bool" where
  "closerThan current previous originalLineNumber =
     lt (mathAbs (sub64 (undefinedToNaN current) originalLineNumber))
        (mathAbs (sub64 (undefinedToNaN previous) originalLineNumber))"

definition findClosestLine ::
  "AnyLineChange list \<Rightarrow> number \<Rightarrow> bool \<Rightarrow> AnyLineChange option" where
  "findClosestLine lines originalLineNumber shouldSearchRightSide =
     (case lines of
        [] \<Rightarrow> None
      | first # rest \<Rightarrow>
          Some (foldl (\<lambda>previous current.
                  if closerThan (getLineNumber current shouldSearchRightSide)
                       (getLineNumber previous shouldSearchRightSide) originalLineNumber
                  then current else previous)
                first lines))"

definition getGitDiffLine ::
  "GitDiff \<Rightarrow> string \<Rightarrow> number \<Rightarrow> bool \<Rightarrow> AnyLineChange option" where
  "getGitDiffLine d searchText originalLineNumber shouldSearchRightSide =
     findClosestLine
       (filterChanges (getChangesFromDiff d) searchText shouldSearchRightSide)
       originalLineNumber shouldSearchRightSide"

text \<open>
  The pair \<^verbatim>\<open>{ lineNumber, offset }\<close>, each possibly undefined. An offset is computed from
  an index into a string and, below, from the length of a string. A string of JavaScript
  has fewer than \<open>2 ^ 53\<close> characters, so these sums do not exceed \<open>2 ^ 53\<close>; up to there
  every integer is a double and addition is exact, and the offsets are computed as integers.
\<close>

definition getLineNumberAndOffset ::
  "GitDiff \<Rightarrow> string \<Rightarrow> number \<Rightarrow> bool \<Rightarrow> number option \<times> int option" where
  "getLineNumberAndOffset parsedDiff searchText originalLineNumber shouldSearchRightSide =
     (case getGitDiffLine parsedDiff searchText originalLineNumber shouldSearchRightSide of
        None \<Rightarrow> (None, None)
      | Some found \<Rightarrow>
          (getLineNumber found shouldSearchRightSide,
           Some (indexOf (content found) searchText + 1)))"

text \<open>
  The functions below assign to the fields of \<^verbatim>\<open>fileStart\<close> and \<^verbatim>\<open>fileEnd\<close>. The model
  passes the two positions in and returns them updated. Assigning to a field of an
  undefined \<^verbatim>\<open>fileEnd\<close> throws a \<^verbatim>\<open>TypeError\<close>.
\<close>

definition updateFileEndForMultilineSnippet ::
  "Position \<Rightarrow> string list \<Rightarrow> GitDiff \<Rightarrow> bool \<Rightarrow> Position" where
  "updateFileEndForMultilineSnippet fileEnd snippets parsedDiff isRightSide =
     (let snippetLast = last snippets in
      case getLineNumberAndOffset parsedDiff snippetLast (line fileEnd) isRightSide of
        (Some lastLineNumber, Some lastLineOffset) \<Rightarrow>
          fileEnd\<lparr>line := lastLineNumber,
                  offset := Finite (of_int (lastLineOffset + int (length snippetLast)))\<rparr>
      | _ \<Rightarrow> fileEnd)"

definition updateFileStartAndEnd ::
  "Position \<Rightarrow> Position option \<Rightarrow> GitDiff \<Rightarrow> bool \<Rightarrow> error + (Position \<times> Position option)" where
  "updateFileStartAndEnd fileStart fileEnd parsedDiff isRightSide =
     (case snippet fileStart of
        None \<Rightarrow> Inl TypeError
      | Some text \<Rightarrow>
          (let snippets = split_newlines text;
               isMultilineSnippet = (length snippets > 1);
               snippetFirst = hd snippets
           in case getLineNumberAndOffset parsedDiff snippetFirst (line fileStart) isRightSide of
             (Some lineNumber, Some off) \<Rightarrow>
               (let fileStart' = fileStart\<lparr>line := lineNumber, offset := Finite (of_int off)\<rparr> in
                case fileEnd of
                  None \<Rightarrow> Inl TypeError
                | Some e \<Rightarrow>
                    (let fileEnd' =
                           e\<lparr>line := lineNumber,
                             offset := Finite (of_int (off + int (length snippetFirst)))\<rparr>
                     in if isMultilineSnippet
                        then Inr (fileStart',
                               Some (updateFileEndForMultilineSnippet fileEnd' snippets
                                       parsedDiff isRightSide))
                        else Inr (fileStart', Some fileEnd')))
           | _ \<Rightarrow> Inr (fileStart, fileEnd)))"

text \<open>\<^verbatim>\<open>fileStart?.snippet?.length\<close> is truthy when the start position is there and its
  snippet is a non-empty string.\<close>

definition hasSnippet :: "Position option \<Rightarrow> bool" where
  "hasSnippet fileStart =
     (case fileStart of
        None \<Rightarrow> False
      | Some p \<Rightarrow> (case snippet p of None \<Rightarrow> False | Some text \<Rightarrow> text \<noteq> []))"

text \<open>The two positions of one side, read from and written back to the thread context.\<close>

definition sideStart :: "ThreadContext \<Rightarrow> bool \<Rightarrow> Position option" where
  "sideStart ctx isRightSide = (if isRightSide then rightFileStart ctx else leftFileStart ctx)"

definition sideEnd :: "ThreadContext \<Rightarrow> bool \<Rightarrow> Position option" where
  "sideEnd ctx isRightSide = (if isRightSide then rightFileEnd ctx else leftFileEnd ctx)"

definition setSide ::
  "ThreadContext \<Rightarrow> bool \<Rightarrow> Position option \<Rightarrow> Position option \<Rightarrow> ThreadContext" where
  "setSide ctx isRightSide s e =
     (if isRightSide then ctx\<lparr>rightFileStart := s, rightFileEnd := e\<rparr>
      else ctx\<lparr>leftFileStart := s, leftFileEnd := e\<rparr>)"

definition fixThreadContextLineNumberAndOffsets ::
  "ThreadContext \<Rightarrow> GitDiff \<Rightarrow> bool \<Rightarrow> error + ThreadContext" where
  "fixThreadContextLineNumberAndOffsets ctx parsedDiff isRightSide =
     (let fileStart = sideStart ctx isRightSide;
          fileEnd = sideEnd ctx isRightSide
      in if hasSnippet fileStart
         then (case fileStart of
                 None \<Rightarrow> Inr ctx
               | Some start \<Rightarrow>
                   (case updateFileStartAndEnd start fileEnd parsedDiff isRightSide of
                      Inl err \<Rightarrow> Inl err
                    | Inr (s, e) \<Rightarrow> Inr (setSide ctx isRightSide (Some s) e)))
         else Inr ctx)"

definition fixThread :: "GitDiff \<Rightarrow> ReviewThread \<Rightarrow> error + ReviewThread" where
  "fixThread parsedDiff thread =
     (case threadContext thread of
        None \<Rightarrow> Inr thread
      | Some ctx \<Rightarrow>
          (case fixThreadContextLineNumberAndOffsets ctx parsedDiff True of
             Inl err \<Rightarrow> Inl err
           | Inr ctx1 \<Rightarrow>
               (case fixThreadContextLineNumberAndOffsets ctx1 parsedDiff False of
                  Inl err \<Rightarrow> Inl err
                | Inr ctx2 \<Rightarrow> Inr (thread\<lparr>threadContext := Some ctx2\<rparr>))))"

fun fixThreads :: "GitDiff \<Rightarrow> ReviewThread list \<Rightarrow> error + ReviewThread list" where
  "fixThreads parsedDiff [] = Inr []"
| "fixThreads parsedDiff (thread # rest) =
     (case fixThread parsedDiff thread of
        Inl err \<Rightarrow> Inl err
      | Inr thread' \<Rightarrow>
          (case fixThreads parsedDiff rest of
             Inl err \<Rightarrow> Inl err
           | Inr rest' \<Rightarrow> Inr (thread' # rest')))"

text \<open>\<^verbatim>\<open>fixThreadPositions\<close>: the diff text is parsed by \<open>parseGitDiff\<close> only when there
  is a thread.\<close>

definition fixThreadPositions ::
  "(string \<Rightarrow> GitDiff) \<Rightarrow> ReviewThread list \<Rightarrow> string \<Rightarrow> error + ReviewThread list" where
  "fixThreadPositions parseGitDiff threads diff =
     (if threads = [] then Inr threads else fixThreads (parseGitDiff diff) threads)"

section \<open>Policy, findings and reports (\<^verbatim>\<open>types.ts\<close>, \<^verbatim>\<open>llm/types.ts\<close>)\<close>

datatype Severity = Low | Medium | High | Critical

record Finding =
  f_id :: string
  f_filePath :: string
  lineStart :: "number option"
  lineEnd :: "number option"
  severity :: Severity
  category :: "string option"
  title :: string
  f_content :: string
  f_confidence :: "number option"
  suggestion :: "string option"
  f_threadContext :: "ThreadContext option"
  sourceThread :: "ReviewThread option"

record PreviousComment =
  pc_id :: "string option"
  pc_filePath :: "string option"
  pc_content :: string
  pc_line :: "number option"

record FileDiff =
  path :: string
  changeType :: "string option"
  diff :: string

record Checks =
  bugs :: bool
  performance :: bool
  bestPractices :: bool

record ConfidencePolicy =
  conf_enabled :: bool
  minimum :: number

record DedupePolicy =
  dedupe_enabled :: bool
  threshold :: number

record Prompts =
  additional :: "string list"
  systemPrompt :: "string option"

record ReviewPolicy =
  checks :: Checks
  modifiedLinesOnly :: bool
  confidence :: ConfidencePolicy
  dedupeAcrossFiles :: DedupePolicy
  prompts :: Prompts

text \<open>The field \<^verbatim>\<open>target\<close> of the input is never read by the engine and is left out.\<close>

record ReviewInput =
  ri_files :: "FileDiff list"
  policy :: ReviewPolicy
  previousComments :: "PreviousComment list option"

record ReviewReport =
  summaryMarkdown :: string
  findings :: "Finding list"
  filteredOut :: "Finding list option"

record ReviewSummary =
  sum_total :: nat
  sum_filtered :: nat
  sum_remaining :: nat

record LlmOptions =
  o_checks :: Checks
  o_modifiedLinesOnly :: bool
  additionalPrompts :: "string list"
  confidenceMode :: bool
  o_systemPrompt :: "string option"

record LlmReviewRequest =
  req_filePath :: string
  req_diff :: string
  existingComments :: "string list"
  options :: LlmOptions

record LlmReviewResponse =
  threads :: "ReviewThread list option"

section \<open>The dedupe utilities (\<^verbatim>\<open>dedupe/dedupeUtils.ts\<close>)\<close>

text \<open>
  An object with two or three lists that a function returns is a tuple, its components in
  the order of the definition's comment. The loops push to the end of their lists.
\<close>

text \<open>\<^verbatim>\<open>filterCommentsByConfidence\<close> returns \<open>(filteredOut, remaining)\<close>.\<close>

fun filterCommentsLoop ::
  "number \<Rightarrow> ReviewComment list \<Rightarrow> ReviewComment list \<times> ReviewComment list \<Rightarrow>
   ReviewComment list \<times> ReviewComment list" where
  "filterCommentsLoop confidenceMinimum [] acc = acc"
| "filterCommentsLoop confidenceMinimum (comment # rest) (out, remaining) =
     (if (case confidenceScore comment of None \<Rightarrow> False | Some c \<Rightarrow> lt c confidenceMinimum)
      then filterCommentsLoop confidenceMinimum rest (out @ [comment], remaining)
      else filterCommentsLoop confidenceMinimum rest (out, remaining @ [comment]))"

definition filterCommentsByConfidence ::
  "ReviewComment list \<Rightarrow> number \<Rightarrow> ReviewComment list \<times> ReviewComment list" where
  "filterCommentsByConfidence cs confidenceMinimum =
     filterCommentsLoop confidenceMinimum cs ([], [])"

definition filterCommentsByPolicy ::
  "ReviewComment list \<Rightarrow> ReviewPolicy \<Rightarrow> ReviewComment list \<times> ReviewComment list" where
  "filterCommentsByPolicy cs pol =
     (if \<not> conf_enabled (confidence pol) then ([], cs)
      else filterCommentsByConfidence cs (minimum (confidence pol)))"

text \<open>\<^verbatim>\<open>getCommentContentForExclusion\<close> returns the exclusion list and the latch.\<close>

definition getCommentContentForExclusion ::
  "ReviewComment list \<Rightarrow> ReviewComment list \<Rightarrow> ReviewPolicy \<Rightarrow> bool \<Rightarrow> string list \<times> bool" where
  "getCommentContentForExclusion fileComments runComments pol deduplicationCriteriaMet =
     (if dedupe_enabled (dedupeAcrossFiles pol)
      then
        (let dedupeMet =
               (if \<not> deduplicationCriteriaMet
                then (let currentRunCommentCount =
                            length (snd (filterCommentsByPolicy runComments pol))
                      in if lt (threshold (dedupeAcrossFiles pol))
                              (Finite (real currentRunCommentCount))
                         then True else deduplicationCriteriaMet)
                else deduplicationCriteriaMet)
         in if dedupeMet then (map rc_content (fileComments @ runComments), dedupeMet)
            else (map rc_content fileComments, dedupeMet))
      else (map rc_content fileComments, deduplicationCriteriaMet))"

text \<open>
  \<^verbatim>\<open>buildFindingSignature\<close>. The digest \<^verbatim>\<open>createHash('sha256')...digest('hex')\<close> of the
  runtime's library is the parameter \<open>sha256hex\<close>.
\<close>

definition buildFindingSignature ::
  "(string \<Rightarrow> string) \<Rightarrow> string option \<Rightarrow> string \<Rightarrow> string" where
  "buildFindingSignature sha256hex filePath text =
     sha256hex ((case filePath of None \<Rightarrow> [] | Some p \<Rightarrow> p) @ ''|'' @ trim text)"

text \<open>\<^verbatim>\<open>applyConfidenceFilterToFindings\<close> returns \<open>(remaining, filteredOut)\<close>.\<close>

fun confidenceLoop ::
  "number \<Rightarrow> Finding list \<Rightarrow> Finding list \<times> Finding list \<Rightarrow> Finding list \<times> Finding list" where
  "confidenceLoop m [] acc = acc"
| "confidenceLoop m (finding # rest) (remaining, out) =
     (if (case f_confidence finding of None \<Rightarrow> False | Some c \<Rightarrow> lt c m)
      then confidenceLoop m rest (remaining, out @ [finding])
      else confidenceLoop m rest (remaining @ [finding], out))"

definition applyConfidenceFilterToFindings ::
  "Finding list \<Rightarrow> ReviewPolicy \<Rightarrow> Finding list \<times> Finding list" where
  "applyConfidenceFilterToFindings fs pol =
     (if \<not> conf_enabled (confidence pol) then (fs, [])
      else confidenceLoop (minimum (confidence pol)) fs ([], []))"

text \<open>
  \<^verbatim>\<open>dedupeAgainstPrevious\<close> returns \<open>(deduped, removed)\<close> and adds to the set
  \<^verbatim>\<open>seenSignatures\<close> of its caller; the model returns the set as a third component.
\<close>

definition findingSignature :: "(string \<Rightarrow> string) \<Rightarrow> Finding \<Rightarrow> string" where
  "findingSignature sha256hex finding =
     (if f_id finding \<noteq> [] then f_id finding
      else buildFindingSignature sha256hex (Some (f_filePath finding)) (f_content finding))"

fun dedupeLoop ::
  "(string \<Rightarrow> string) \<Rightarrow> string set \<Rightarrow> Finding list \<Rightarrow>
   Finding list \<times> Finding list \<times> string set \<Rightarrow> Finding list \<times> Finding list \<times> string set" where
  "dedupeLoop sha256hex previousSignatures [] acc = acc"
| "dedupeLoop sha256hex previousSignatures (finding # rest) (deduped, removed, seenSignatures) =
     (let signature = findingSignature sha256hex finding;
          alreadySeen = (signature \<in> seenSignatures \<or> signature \<in> previousSignatures)
      in if alreadySeen
         then dedupeLoop sha256hex previousSignatures rest
                (deduped, removed @ [finding], seenSignatures)
         else dedupeLoop sha256hex previousSignatures rest
                (deduped @ [finding\<lparr>f_id := signature\<rparr>], removed,
                 insert signature seenSignatures))"

definition previousSignaturesOf ::
  "(string \<Rightarrow> string) \<Rightarrow> PreviousComment list option \<Rightarrow> string set" where
  "previousSignaturesOf sha256hex previous =
     set (map (\<lambda>c. buildFindingSignature sha256hex (pc_filePath c) (pc_content c))
            (case previous of None \<Rightarrow> [] | Some cs \<Rightarrow> cs))"

definition dedupeAgainstPrevious ::
  "(string \<Rightarrow> string) \<Rightarrow> Finding list \<Rightarrow> PreviousComment list option \<Rightarrow> string set \<Rightarrow>
   Finding list \<times> Finding list \<times> string set" where
  "dedupeAgainstPrevious sha256hex fs previous seenSignatures =
     dedupeLoop sha256hex (previousSignaturesOf sha256hex previous) fs ([], [], seenSignatures)"

section \<open>The review engine (\<^verbatim>\<open>reviewEngine.ts\<close>)\<close>

definition normalizePath :: "string \<Rightarrow> string" where
  "normalizePath p = (if startsWith p ''/'' then p else ''/'' @ p)"

definition buildLlmRequest ::
  "string \<Rightarrow> string \<Rightarrow> string list \<Rightarrow> ReviewPolicy \<Rightarrow> LlmReviewRequest" where
  "buildLlmRequest filePath d existing pol =
     \<lparr>req_filePath = normalizePath filePath,
      req_diff = d,
      existingComments = existing,
      options = \<lparr>o_checks = checks pol,
                 o_modifiedLinesOnly = modifiedLinesOnly pol,
                 additionalPrompts = additional (prompts pol),
                 confidenceMode = conf_enabled (confidence pol),
                 o_systemPrompt = systemPrompt (prompts pol)\<rparr>\<rparr>"

text \<open>\<^verbatim>\<open>ctx?.rightFileStart?.line ?? ctx?.leftFileStart?.line\<close>, and the same for the end.\<close>

definition optLine :: "Position option \<Rightarrow> number option" where
  "optLine p = map_option line p"

definition deriveLineRange :: "ThreadContext option \<Rightarrow> number option \<times> number option" where
  "deriveLineRange ctx =
     (case ctx of
        None \<Rightarrow> (None, None)
      | Some c \<Rightarrow>
          ((case optLine (rightFileStart c) of Some l \<Rightarrow> Some l
            | None \<Rightarrow> optLine (leftFileStart c)),
           (case optLine (rightFileEnd c) of Some l \<Rightarrow> Some l
            | None \<Rightarrow> optLine (leftFileEnd c))))"

definition deriveSeverity :: "string option \<Rightarrow> Severity" where
  "deriveSeverity issue =
     (let u = toUpperCase (case issue of None \<Rightarrow> [] | Some t \<Rightarrow> t)
      in if u = ''SECURITY'' then Critical
         else if u = ''BUG'' then High
         else if u = ''PERFORMANCE'' then High
         else if u = ''BEST_PRACTICE'' then Medium
         else Medium)"

definition commentToFinding :: "ReviewThread \<Rightarrow> string \<Rightarrow> ReviewComment \<Rightarrow> Finding" where
  "commentToFinding thread filePath comment =
     \<lparr>f_id = [],
      f_filePath = filePath,
      lineStart = fst (deriveLineRange (threadContext thread)),
      lineEnd = snd (deriveLineRange (threadContext thread)),
      severity = deriveSeverity (issueType comment),
      category = issueType comment,
      title = (case issueType comment of None \<Rightarrow> ''Code review'' | Some t \<Rightarrow> t),
      f_content = rc_content comment,
      f_confidence = confidenceScore comment,
      suggestion = fixSuggestion comment,
      f_threadContext = threadContext thread,
      sourceThread = Some thread\<rparr>"

definition threadToFindings :: "ReviewThread \<Rightarrow> string \<Rightarrow> Finding list" where
  "threadToFindings thread filePath = map (commentToFinding thread filePath) (comments thread)"

definition summarize :: "ReviewSummary \<Rightarrow> string" where
  "summarize summary =
     ''Findings: '' @ showNat (sum_remaining summary) @ '' ('' @ showNat (sum_filtered summary)
       @ '' filtered out, total generated '' @ showNat (sum_total summary) @ '').''"

definition computeSummary :: "Finding list \<Rightarrow> Finding list \<Rightarrow> ReviewSummary" where
  "computeSummary fs out =
     \<lparr>sum_total = length fs + length out,
      sum_filtered = length out,
      sum_remaining = length fs\<rparr>"

definition stripSourceThreads :: "ReviewReport \<Rightarrow> ReviewReport" where
  "stripSourceThreads report =
     report\<lparr>findings := map (\<lambda>f. f\<lparr>sourceThread := None\<rparr>) (findings report),
            filteredOut := map_option (map (\<lambda>f. f\<lparr>sourceThread := None\<rparr>)) (filteredOut report)\<rparr>"

text \<open>
  The local variables of \<^verbatim>\<open>reviewCode\<close> that the loop over the files updates. The review
  capability is a function from the request to the threads it resolves with, or to the
  error it rejects with; what it answers may depend on everything in the request.
\<close>

record RunState =
  rs_filteredOut :: "Finding list"
  rs_findings :: "Finding list"
  runComments :: "ReviewComment list"
  seenSignatures :: "string set"
  dedupeCriteriaMet :: bool

type_synonym LlmClient = "LlmReviewRequest \<Rightarrow> error + LlmReviewResponse"

definition previousFileComments :: "ReviewInput \<Rightarrow> FileDiff \<Rightarrow> ReviewComment list" where
  "previousFileComments input file =
     map (\<lambda>c. \<lparr>rc_content = pc_content c, commentType = Finite 0, confidenceScore = None,
               confidenceScoreJustification = None, fixSuggestion = None, issueType = None\<rparr>)
       (filter (\<lambda>c. normalizePath (case pc_filePath c of None \<Rightarrow> [] | Some p \<Rightarrow> p)
                     = normalizePath (path file))
          (case previousComments input of None \<Rightarrow> [] | Some cs \<Rightarrow> cs))"

text \<open>The loop body up to the threads with fixed positions: the new latch and the threads.\<close>

definition sanitizedThreadsOf ::
  "LlmClient \<Rightarrow> (string \<Rightarrow> GitDiff) \<Rightarrow> ReviewInput \<Rightarrow> RunState \<Rightarrow> FileDiff \<Rightarrow>
   error + (bool \<times> ReviewThread list)" where
  "sanitizedThreadsOf llmClient parseGitDiff input st file =
     (case getCommentContentForExclusion (previousFileComments input file) (runComments st)
             (policy input) (dedupeCriteriaMet st) of
        (commentsForExclusion, newDedupeMet) \<Rightarrow>
          (case llmClient (buildLlmRequest (path file) (diff file) commentsForExclusion
                             (policy input)) of
             Inl err \<Rightarrow> Inl err
           | Inr response \<Rightarrow>
               (case fixThreadPositions parseGitDiff
                       (case threads response of None \<Rightarrow> [] | Some ts \<Rightarrow> ts) (diff file) of
                  Inl err \<Rightarrow> Inl err
                | Inr sanitizedThreads \<Rightarrow> Inr (newDedupeMet, sanitizedThreads))))"

definition threadFindingsOf :: "ReviewThread list \<Rightarrow> FileDiff \<Rightarrow> Finding list" where
  "threadFindingsOf sanitizedThreads file =
     concat (map (\<lambda>thread. threadToFindings thread (normalizePath (path file))) sanitizedThreads)"

text \<open>The whole loop body.\<close>

definition reviewFile ::
  "LlmClient \<Rightarrow> (string \<Rightarrow> string) \<Rightarrow> (string \<Rightarrow> GitDiff) \<Rightarrow> ReviewInput \<Rightarrow> RunState \<Rightarrow>
   FileDiff \<Rightarrow> error + RunState" where
  "reviewFile llmClient sha256hex parseGitDiff input st file =
     (case sanitizedThreadsOf llmClient parseGitDiff input st file of
        Inl err \<Rightarrow> Inl err
      | Inr (newDedupeMet, sanitizedThreads) \<Rightarrow>
          (let currentRunComments = concat (map comments sanitizedThreads);
               threadFindings = threadFindingsOf sanitizedThreads file
           in case applyConfidenceFilterToFindings threadFindings (policy input) of
             (confidenceRemaining, confidenceFiltered) \<Rightarrow>
               (case dedupeAgainstPrevious sha256hex confidenceRemaining (previousComments input)
                       (seenSignatures st) of
                  (deduped, removed, seen) \<Rightarrow>
                    Inr \<lparr>rs_filteredOut = rs_filteredOut st @ confidenceFiltered @ removed,
                         rs_findings = rs_findings st @ deduped,
                         runComments = runComments st @ currentRunComments,
                         seenSignatures = seen,
                         dedupeCriteriaMet = newDedupeMet\<rparr>)))"

fun reviewFiles ::
  "LlmClient \<Rightarrow> (string \<Rightarrow> string) \<Rightarrow> (string \<Rightarrow> GitDiff) \<Rightarrow> ReviewInput \<Rightarrow> RunState \<Rightarrow>
   FileDiff list \<Rightarrow> error + RunState" where
  "reviewFiles llmClient sha256hex parseGitDiff input st [] = Inr st"
| "reviewFiles llmClient sha256hex parseGitDiff input st (file # rest) =
     (case reviewFile llmClient sha256hex parseGitDiff input st file of
        Inl err \<Rightarrow> Inl err
      | Inr st' \<Rightarrow> reviewFiles llmClient sha256hex parseGitDiff input st' rest)"

definition initialState :: RunState where
  "initialState =
     \<lparr>rs_filteredOut = [], rs_findings = [], runComments = [], seenSignatures = {},
      dedupeCriteriaMet = False\<rparr>"

definition reviewCode ::
  "LlmClient \<Rightarrow> (string \<Rightarrow> string) \<Rightarrow> (string \<Rightarrow> GitDiff) \<Rightarrow> ReviewInput \<Rightarrow>
   error + ReviewReport" where
  "reviewCode llmClient sha256hex parseGitDiff input =
     (if ri_files input = []
      then Inr \<lparr>summaryMarkdown = ''No files to review.'', findings = [], filteredOut = Some []\<rparr>
      else
        (case reviewFiles llmClient sha256hex parseGitDiff input initialState (ri_files input) of
           Inl err \<Rightarrow> Inl err
         | Inr st \<Rightarrow>
             Inr (stripSourceThreads
                    \<lparr>summaryMarkdown = summarize (computeSummary (rs_findings st) (rs_filteredOut st)),
                     findings = rs_findings st,
                     filteredOut = Some (rs_filteredOut st)\<rparr>)))"

section \<open>The review capability for OpenAI endpoints (\<^verbatim>\<open>llm/openAiClient.ts\<close>)\<close>

text \<open>
  \<^verbatim>\<open>JSON.parse\<close> is a parameter of the model. What it returns is read at the types of the
  interfaces, as the source does after its cast: a field is \<open>None\<close> where the parsed value
  has no such field or has one of another type, an element of \<^verbatim>\<open>threads\<close> is \<open>None\<close> where
  it is falsy, and an element of \<^verbatim>\<open>comments\<close> is \<open>None\<close> where it is not an object. A
  thread context without a file path is read with the empty path, which is falsy too. The
  confidence score of a comment is read as the value it is, of whatever type: the source
  computes with it before anything has checked that it is a number.
\<close>

record RawComment =
  raw_content :: string
  raw_commentType :: number
  raw_confidenceScore :: JsValue
  raw_confidenceScoreJustification :: "string option"
  raw_fixSuggestion :: "string option"
  raw_issueType :: "string option"

record RawThread =
  raw_status :: "number option"
  raw_threadContext :: "ThreadContext option"
  raw_comments :: "RawComment option list option"

record RawResponse =
  raw_threads :: "RawThread option list option"

definition tryExtractJsonObject :: "string \<Rightarrow> string option" where
  "tryExtractJsonObject text =
     (let start = indexOf text ''{'';
          endIndex = lastIndexOf text ''}''
      in if start = - 1 \<or> endIndex = - 1 \<or> endIndex \<le> start then None
         else Some (slice text (nat start) (nat (endIndex + 1))))"

definition diagnosticThread :: "string \<Rightarrow> string \<Rightarrow> string \<Rightarrow> LlmReviewResponse" where
  "diagnosticThread filePath issue text =
     (let P1 = \<lparr>line = Finite 1, offset = Finite 1, snippet = None\<rparr>;
          ctx = \<lparr>tc_filePath = filePath,
                 leftFileStart = Some P1, leftFileEnd = Some P1,
                 rightFileStart = Some P1, rightFileEnd = Some P1\<rparr>;
          comment = \<lparr>rc_content = text,
                     commentType = Finite 0,
                     confidenceScore = Some (Finite 1),
                     confidenceScoreJustification = Some ''Diagnostic message produced by the tool.'',
                     fixSuggestion =
                       Some ''Inspect the raw LLM output and adjust the prompt/schema.'',
                     issueType = Some issue\<rparr>
      in \<lparr>threads =
           Some [\<lparr>comments = [comment], status = Finite 1, threadContext = Some ctx\<rparr>]\<rparr>)"

definition isValidReviewThread :: "RawThread option \<Rightarrow> bool" where
  "isValidReviewThread v =
     (case v of
        None \<Rightarrow> False
      | Some t \<Rightarrow>
          raw_status t \<noteq> None
          \<and> (case raw_threadContext t of None \<Rightarrow> False | Some ctx \<Rightarrow> tc_filePath ctx \<noteq> [])
          \<and> raw_comments t \<noteq> None)"

definition isValidResponse :: "RawResponse \<Rightarrow> bool" where
  "isValidResponse response =
     (case raw_threads response of
        None \<Rightarrow> False
      | Some ts \<Rightarrow> list_all isValidReviewThread ts)"

text \<open>
  \<^verbatim>\<open>normalizeConfidence\<close>. The comparison, the division and \<^verbatim>\<open>Math.min\<close> each convert the
  score to a number, whatever it is; the result is \<open>None\<close> for \<^verbatim>\<open>undefined\<close>.
\<close>

definition normalizeConfidence :: "(string \<Rightarrow> number) \<Rightarrow> JsValue \<Rightarrow> number option" where
  "normalizeConfidence stringToNumber score =
     (if score = JsUndefined \<or> score = JsNull then None
      else if lt (Finite 1) (toNumber stringToNumber score)
      then Some (mathMax (Finite 0) (mathMin (Finite 1) (div10 (toNumber stringToNumber score))))
      else Some (mathMax (Finite 0) (mathMin (Finite 1) (toNumber stringToNumber score))))"

text \<open>
  The loops that normalize the scores of a valid response. Assigning to a field of a
  comment that is not an object throws, and the \<^verbatim>\<open>catch\<close> of \<^verbatim>\<open>reviewCode\<close> takes over:
  the result is \<open>None\<close> then.
\<close>

definition normalizeComment :: "(string \<Rightarrow> number) \<Rightarrow> RawComment \<Rightarrow> ReviewComment" where
  "normalizeComment stringToNumber comment =
     \<lparr>rc_content = raw_content comment,
      commentType = raw_commentType comment,
      confidenceScore = normalizeConfidence stringToNumber (raw_confidenceScore comment),
      confidenceScoreJustification = raw_confidenceScoreJustification comment,
      fixSuggestion = raw_fixSuggestion comment,
      issueType = raw_issueType comment\<rparr>"

fun normalizeComments ::
  "(string \<Rightarrow> number) \<Rightarrow> RawComment option list \<Rightarrow> ReviewComment list option" where
  "normalizeComments stringToNumber [] = Some []"
| "normalizeComments stringToNumber (None # rest) = None"
| "normalizeComments stringToNumber (Some comment # rest) =
     (case normalizeComments stringToNumber rest of
        None \<Rightarrow> None
      | Some cs \<Rightarrow> Some (normalizeComment stringToNumber comment # cs))"

definition normalizeThread ::
  "(string \<Rightarrow> number) \<Rightarrow> RawThread option \<Rightarrow> ReviewThread option" where
  "normalizeThread stringToNumber v =
     (case v of
        None \<Rightarrow> None
      | Some t \<Rightarrow>
          (case (raw_status t, raw_comments t) of
             (Some s, Some raw) \<Rightarrow>
               (case normalizeComments stringToNumber raw of
                  None \<Rightarrow> None
                | Some cs \<Rightarrow>
                    Some \<lparr>comments = cs, status = s, threadContext = raw_threadContext t\<rparr>)
           | _ \<Rightarrow> None))"

fun normalizeThreads ::
  "(string \<Rightarrow> number) \<Rightarrow> RawThread option list \<Rightarrow> ReviewThread list option" where
  "normalizeThreads stringToNumber [] = Some []"
| "normalizeThreads stringToNumber (v # rest) =
     (case normalizeThread stringToNumber v of
        None \<Rightarrow> None
      | Some t \<Rightarrow>
          (case normalizeThreads stringToNumber rest of
             None \<Rightarrow> None
           | Some ts \<Rightarrow> Some (t # ts)))"

definition noJsonMessage :: string where
  "noJsonMessage =
     ''LLM_OUTPUT_PARSE_ERROR: No JSON object found in output. Output snippet:'' @ [CHR 0x0A]"

definition parseFailedMessage :: string where
  "parseFailedMessage =
     ''LLM_OUTPUT_PARSE_ERROR: Failed to parse JSON. Output snippet:'' @ [CHR 0x0A]"

definition invalidShapeMessage :: string where
  "invalidShapeMessage = ''LLM_OUTPUT_INVALID_SHAPE: missing threads[]''"

text \<open>
  The method \<^verbatim>\<open>OpenAiLlmClient.reviewCode\<close> from the token check on. \<open>overLimit\<close> is the
  result of \<^verbatim>\<open>exceedsTokenLimit\<close> on the prompt and \<open>choice\<close> is the text of the first
  choice of the completion, empty when there is none.
\<close>

definition llmReviewCode ::
  "(string \<Rightarrow> RawResponse option) \<Rightarrow> (string \<Rightarrow> number) \<Rightarrow> bool \<Rightarrow> string \<Rightarrow> string \<Rightarrow>
   LlmReviewResponse" where
  "llmReviewCode jsonParse stringToNumber overLimit filePath choice =
     (if overLimit then \<lparr>threads = Some []\<rparr>
      else
        (case tryExtractJsonObject choice of
           None \<Rightarrow> diagnosticThread filePath ''BUG'' (noJsonMessage @ slice choice 0 800)
         | Some extractedJson \<Rightarrow>
             (case jsonParse extractedJson of
                None \<Rightarrow>
                  diagnosticThread filePath ''BUG'' (parseFailedMessage @ slice choice 0 800)
              | Some parsed \<Rightarrow>
                  (if \<not> isValidResponse parsed
                   then diagnosticThread filePath ''BUG'' invalidShapeMessage
                   else
                     (case normalizeThreads stringToNumber
                             (case raw_threads parsed of None \<Rightarrow> [] | Some ts \<Rightarrow> ts) of
                        None \<Rightarrow>
                          diagnosticThread filePath ''BUG''
                            (parseFailedMessage @ slice choice 0 800)
                      | Some ts \<Rightarrow> \<lparr>threads = Some ts\<rparr>)))))"

section \<open>Notions used to state the properties\<close>

text \<open>
  The distance of a line record from the line number \<open>n\<close> on one side, as a double: the
  difference of the two line numbers rounded to the nearest double, without its sign.
\<close>

definition lineDist :: "bool \<Rightarrow> number \<Rightarrow> AnyLineChange \<Rightarrow> number" where
  "lineDist side n c = mathAbs (sub64 (undefinedToNaN (getLineNumber c side)) n)"

text \<open>
  \<open>m\<close> is the record of \<open>lines\<close> closest to \<open>n\<close> by that distance, and the first such in the
  order of the list: every record before it is strictly farther, no record after it is
  closer.
\<close>

definition firstClosest :: "AnyLineChange list \<Rightarrow> bool \<Rightarrow> number \<Rightarrow> AnyLineChange \<Rightarrow> bool" where
  "firstClosest lines side n m =
     (\<exists>pre post. lines = pre @ m # post \<and>
        (\<forall>x\<in>set lines. getLineNumber x side \<noteq> None) \<and>
        (\<forall>x\<in>set pre. lt (lineDist side n m) (lineDist side n x)) \<and>
        (\<forall>x\<in>set post. \<not> lt (lineDist side n x) (lineDist side n m)))"

text \<open>
  The line numbers that the parser of diffs yields are whole numbers: it reads them from
  the hunk headers and counts on from there.
\<close>

definition wholeNumber :: "number \<Rightarrow> bool" where
  "wholeNumber n = (case n of Finite x \<Rightarrow> x = of_int \<lfloor>x\<rfloor> | _ \<Rightarrow> False)"

definition wholeLines :: "AnyLineChange \<Rightarrow> bool" where
  "wholeLines c =
     ((case lineAfter c of None \<Rightarrow> True | Some l \<Rightarrow> wholeNumber l)
      \<and> (case lineBefore c of None \<Rightarrow> True | Some l \<Rightarrow> wholeNumber l))"

text \<open>\<open>t\<close> occurs in \<open>s\<close> at the zero-based index \<open>k\<close> and at no smaller index.\<close>

definition firstOccurrence :: "string \<Rightarrow> string \<Rightarrow> nat \<Rightarrow> bool" where
  "firstOccurrence s t k =
     (k \<le> length s \<and> prefix t (drop k s) \<and> (\<forall>j<k. \<not> prefix t (drop j s)))"

section \<open>Example inputs\<close>

text \<open>
  A diff of one file whose hunk adds \<^verbatim>\<open>  const x = 1;\<close> as line 2543 of the new file and
  \<^verbatim>\<open>  return x;\<close> as line 2544, between two unchanged lines.
\<close>

definition exampleDiff :: GitDiff where
  "exampleDiff =
     \<lparr>files =
        [\<lparr>chunks = [Chunk [UnchangedLine (Finite 2541) (Finite 2542) ''function f() {'',
                           AddedLine (Finite 2543) ''  const x = 1;'',
                           AddedLine (Finite 2544) ''  return x;'',
                           UnchangedLine (Finite 2542) (Finite 2545) ''}'']]\<rparr>]\<rparr>"

text \<open>A thread context whose right side points near line 2540 with a one-line snippet.\<close>

definition exampleStart :: Position where
  "exampleStart = \<lparr>line = Finite 2540, offset = Finite 1, snippet = Some ''const x = 1;''\<rparr>"

definition exampleEnd :: Position where
  "exampleEnd = \<lparr>line = Finite 2540, offset = Finite 1, snippet = None\<rparr>"

definition exampleContext :: ThreadContext where
  "exampleContext =
     \<lparr>tc_filePath = ''/src/file.ts'', leftFileStart = None, leftFileEnd = None,
      rightFileStart = Some exampleStart, rightFileEnd = Some exampleEnd\<rparr>"

text \<open>
  The same context pointing at line \<open>10 ^ 17\<close> with the snippet \<^verbatim>\<open>x\<close>, which the lines 2543
  and 2544 both contain, and at line 3000.
\<close>

definition farContext :: "number \<Rightarrow> ThreadContext" where
  "farContext n =
     \<lparr>tc_filePath = ''/src/file.ts'', leftFileStart = None, leftFileEnd = None,
      rightFileStart = Some \<lparr>line = n, offset = Finite 1, snippet = Some ''x''\<rparr>,
      rightFileEnd = Some exampleEnd\<rparr>"

text \<open>The same with a snippet of two lines.\<close>

definition twoLineSnippet :: string where
  "twoLineSnippet = ''const x = 1;'' @ [CHR 0x0A] @ ''return x;''"

definition twoLineStart :: Position where
  "twoLineStart = \<lparr>line = Finite 2540, offset = Finite 1, snippet = Some twoLineSnippet\<rparr>"

definition twoLineContext :: ThreadContext where
  "twoLineContext =
     \<lparr>tc_filePath = ''/src/file.ts'', leftFileStart = None, leftFileEnd = None,
      rightFileStart = Some twoLineStart, rightFileEnd = Some exampleEnd\<rparr>"

text \<open>A diff of two files; only the second one has the line of the snippet.\<close>

definition twoFileDiff :: GitDiff where
  "twoFileDiff =
     \<lparr>files = [\<lparr>chunks = [Chunk [AddedLine (Finite 1) ''let y = 2;'']]\<rparr>,
               \<lparr>chunks = [Chunk [AddedLine (Finite 2543) ''  const x = 1;'']]\<rparr>]\<rparr>"

section \<open>Notions used to state the properties of the filters\<close>

text \<open>A comment or a finding has a confidence value, and that value is below \<open>m\<close>.\<close>

definition scoreBelow :: "number \<Rightarrow> number option \<Rightarrow> bool" where
  "scoreBelow m score = (case score of None \<Rightarrow> False | Some c \<Rightarrow> lt c m)"

text \<open>The signature of a finding that has no id yet: the digest of its path and content.\<close>

definition contentSignature :: "(string \<Rightarrow> string) \<Rightarrow> Finding \<Rightarrow> string" where
  "contentSignature sha256hex f =
     buildFindingSignature sha256hex (Some (f_filePath f)) (f_content f)"

text \<open>A stand-in for the digest in the examples: every text is its own digest.\<close>

definition plainDigest :: "string \<Rightarrow> string" where
  "plainDigest text = text"

definition exampleComment :: "string \<Rightarrow> number option \<Rightarrow> ReviewComment" where
  "exampleComment text score =
     \<lparr>rc_content = text, commentType = Finite 0, confidenceScore = score,
      confidenceScoreJustification = None, fixSuggestion = None, issueType = None\<rparr>"

definition examplePolicy :: ReviewPolicy where
  "examplePolicy =
     \<lparr>checks = \<lparr>bugs = True, performance = True, bestPractices = True\<rparr>,
      modifiedLinesOnly = True,
      confidence = \<lparr>conf_enabled = True, minimum = decimal 6 1\<rparr>,
      dedupeAcrossFiles = \<lparr>dedupe_enabled = True, threshold = Finite 1\<rparr>,
      prompts = \<lparr>additional = [], systemPrompt = None\<rparr>\<rparr>"

definition exampleFinding :: "string \<Rightarrow> string \<Rightarrow> number option \<Rightarrow> Finding" where
  "exampleFinding filePath text score =
     \<lparr>f_id = [], f_filePath = filePath, lineStart = None, lineEnd = None, severity = Medium,
      category = None, title = ''Code review'', f_content = text, f_confidence = score,
      suggestion = None, f_threadContext = None, sourceThread = None\<rparr>"

text \<open>A finding with its id taken away again.\<close>

definition withoutId :: "Finding \<Rightarrow> Finding" where
  "withoutId f = f\<lparr>f_id := []\<rparr>"

definition examplePrevious :: "string \<Rightarrow> string \<Rightarrow> PreviousComment" where
  "examplePrevious filePath text =
     \<lparr>pc_id = None, pc_filePath = Some filePath, pc_content = text, pc_line = None\<rparr>"

text \<open>
  A stand-in for \<^verbatim>\<open>JSON.parse\<close> in the examples: the text \<^verbatim>\<open>{}\<close> parses to the object
  without fields, which has no \<^verbatim>\<open>threads\<close>; no other text parses.
\<close>

definition emptyObjectParse :: "string \<Rightarrow> RawResponse option" where
  "emptyObjectParse text = (if text = ''{}'' then Some \<lparr>raw_threads = None\<rparr> else None)"

text \<open>
  Stand-ins for the reading of a string as a number in the examples: one that reads no
  string as a number, as the language reads \<^verbatim>\<open>high\<close>, and one that reads the text \<^verbatim>\<open>0.9\<close>
  besides.
\<close>

definition readsNoNumber :: "string \<Rightarrow> number" where
  "readsNoNumber text = NaN"



section \<open>Notions used to state the properties of a run\<close>

text \<open>A finding as the report shows it: without the link to its source thread.\<close>

definition withoutSource :: "Finding \<Rightarrow> Finding" where
  "withoutSource f = f\<lparr>sourceThread := None\<rparr>"

text \<open>
  All findings that a run generates: for each file in turn the findings made from its
  threads, up to the first file whose review throws.
\<close>

fun generatedFindings ::
  "LlmClient \<Rightarrow> (string \<Rightarrow> string) \<Rightarrow> (string \<Rightarrow> GitDiff) \<Rightarrow> ReviewInput \<Rightarrow> RunState \<Rightarrow>
   FileDiff list \<Rightarrow> Finding list" where
  "generatedFindings llmClient sha256hex parseGitDiff input st [] = []"
| "generatedFindings llmClient sha256hex parseGitDiff input st (file # rest) =
     (case sanitizedThreadsOf llmClient parseGitDiff input st file of
        Inl err \<Rightarrow> []
      | Inr (newDedupeMet, sanitizedThreads) \<Rightarrow>
          threadFindingsOf sanitizedThreads file @
          (case reviewFile llmClient sha256hex parseGitDiff input st file of
             Inl err \<Rightarrow> []
           | Inr st' \<Rightarrow> generatedFindings llmClient sha256hex parseGitDiff input st' rest))"

text \<open>The previous comments that a caller makes of the findings of a report: the file
  path and the content of each.\<close>

definition seedPrevious :: "Finding list \<Rightarrow> PreviousComment list" where
  "seedPrevious fs =
     map (\<lambda>f. \<lparr>pc_id = None, pc_filePath = Some (f_filePath f), pc_content = f_content f,
               pc_line = None\<rparr>) fs"

text \<open>The previous comments of an input as a list.\<close>

definition previousList :: "ReviewInput \<Rightarrow> PreviousComment list" where
  "previousList input = (case previousComments input of None \<Rightarrow> [] | Some cs \<Rightarrow> cs)"

text \<open>A second run whose previous comments are made of the findings of a first run only.\<close>

definition rerunSeeded ::
  "LlmClient \<Rightarrow> (string \<Rightarrow> string) \<Rightarrow> (string \<Rightarrow> GitDiff) \<Rightarrow> ReviewInput \<Rightarrow>
   error + ReviewReport" where
  "rerunSeeded llmClient sha256hex parseGitDiff input =
     (case reviewCode llmClient sha256hex parseGitDiff input of
        Inl err \<Rightarrow> Inl err
      | Inr first \<Rightarrow>
          reviewCode llmClient sha256hex parseGitDiff
            (input\<lparr>previousComments := Some (seedPrevious (findings first))\<rparr>))"

text \<open>The contents of the findings and of the filtered-out findings of a result.\<close>

definition findingContents :: "error + ReviewReport \<Rightarrow> error + string list" where
  "findingContents result =
     (case result of Inl err \<Rightarrow> Inl err | Inr report \<Rightarrow> Inr (map f_content (findings report)))"

definition filteredContents :: "error + ReviewReport \<Rightarrow> error + string list" where
  "filteredContents result =
     (case result of
        Inl err \<Rightarrow> Inl err
      | Inr report \<Rightarrow>
          Inr (map f_content (case filteredOut report of None \<Rightarrow> [] | Some fs \<Rightarrow> fs)))"

definition findingPaths :: "error + ReviewReport \<Rightarrow> error + string list" where
  "findingPaths result =
     (case result of Inl err \<Rightarrow> Inl err | Inr report \<Rightarrow> Inr (map f_filePath (findings report)))"

definition summaryOf :: "error + ReviewReport \<Rightarrow> error + string" where
  "summaryOf result =
     (case result of Inl err \<Rightarrow> Inl err | Inr report \<Rightarrow> Inr (summaryMarkdown report))"

section \<open>Example runs\<close>

text \<open>
  The stub of the repository's engine test: whatever the request, one thread with the
  comments \<^verbatim>\<open>Old issue\<close> of confidence 0.9 and \<^verbatim>\<open>Low confidence\<close> of confidence 0.1. The
  policy of that test has a minimum confidence of 0.8 and no cross-file dedup. The parser
  stand-in finds no file in any diff text.
\<close>

definition stubThread :: ReviewThread where
  "stubThread =
     \<lparr>comments = [exampleComment ''Old issue'' (Some (decimal 9 1)),
                  exampleComment ''Low confidence'' (Some (decimal 1 1))],
      status = Finite 1,
      threadContext =
        Some \<lparr>tc_filePath = ''/src/file.ts'', leftFileStart = None, leftFileEnd = None,
              rightFileStart = Some \<lparr>line = Finite 1, offset = Finite 1, snippet = None\<rparr>,
              rightFileEnd = Some \<lparr>line = Finite 1, offset = Finite 10, snippet = None\<rparr>\<rparr>\<rparr>"

definition stubLlm :: LlmClient where
  "stubLlm request = Inr \<lparr>threads = Some [stubThread]\<rparr>"

definition noFilesParse :: "string \<Rightarrow> GitDiff" where
  "noFilesParse text = \<lparr>files = []\<rparr>"

definition testPolicy :: ReviewPolicy where
  "testPolicy =
     \<lparr>checks = \<lparr>bugs = True, performance = False, bestPractices = False\<rparr>,
      modifiedLinesOnly = True,
      confidence = \<lparr>conf_enabled = True, minimum = decimal 8 1\<rparr>,
      dedupeAcrossFiles = \<lparr>dedupe_enabled = False, threshold = Finite 10\<rparr>,
      prompts = \<lparr>additional = [], systemPrompt = None\<rparr>\<rparr>"

definition testFile :: FileDiff where
  "testFile =
     \<lparr>path = ''src/file.ts'', changeType = None,
      diff = ''diff --git a/src/file.ts b/src/file.ts''\<rparr>"

text \<open>The input of the test, with the previous comment \<^verbatim>\<open>Old issue\<close> on the file.\<close>

definition testInput :: ReviewInput where
  "testInput =
     \<lparr>ri_files = [testFile], policy = testPolicy,
      previousComments = Some [examplePrevious ''/src/file.ts'' ''Old issue'']\<rparr>"

text \<open>The same input without previous comments, without files, and with the previous
  comment under the path as the file list has it, without the leading slash.\<close>

definition freshInput :: ReviewInput where
  "freshInput = \<lparr>ri_files = [testFile], policy = testPolicy, previousComments = None\<rparr>"

definition noFilesInput :: ReviewInput where
  "noFilesInput = \<lparr>ri_files = [], policy = testPolicy, previousComments = None\<rparr>"

definition bareInput :: ReviewInput where
  "bareInput =
     \<lparr>ri_files = [testFile], policy = testPolicy,
      previousComments = Some [examplePrevious ''src/file.ts'' ''Old issue'']\<rparr>"

text \<open>A review capability whose answer does not depend on the exclusion list it is sent,
  as a stub that returns the same threads for the same file each time.\<close>

definition ignoresExisting :: "LlmClient \<Rightarrow> bool" where
  "ignoresExisting llmClient =
     (\<forall>request existing. llmClient (request\<lparr>existingComments := existing\<rparr>) = llmClient request)"

text \<open>The threads of a file with fixed positions, for such a capability.\<close>

definition fileThreads ::
  "LlmClient \<Rightarrow> (string \<Rightarrow> GitDiff) \<Rightarrow> ReviewPolicy \<Rightarrow> FileDiff \<Rightarrow> error + ReviewThread list" where
  "fileThreads llmClient parseGitDiff pol file =
     (case llmClient (buildLlmRequest (path file) (diff file) [] pol) of
        Inl err \<Rightarrow> Inl err
      | Inr response \<Rightarrow>
          fixThreadPositions parseGitDiff
            (case threads response of None \<Rightarrow> [] | Some ts \<Rightarrow> ts) (diff file))"

text \<open>A second run whose previous comments are made of the findings of a first run
  and of the previous comments of the first run.\<close>

definition rerunKeeping ::
  "LlmClient \<Rightarrow> (string \<Rightarrow> string) \<Rightarrow> (string \<Rightarrow> GitDiff) \<Rightarrow> ReviewInput \<Rightarrow>
   error + ReviewReport" where
  "rerunKeeping llmClient sha256hex parseGitDiff input =
     (case reviewCode llmClient sha256hex parseGitDiff input of
        Inl err \<Rightarrow> Inl err
      | Inr first \<Rightarrow>
          reviewCode llmClient sha256hex parseGitDiff
            (input\<lparr>previousComments :=
                     Some (seedPrevious (findings first) @ previousList input)\<rparr>))"

text \<open>A thread context whose right side has the start of the example and no end.\<close>

definition noEndContext :: ThreadContext where
  "noEndContext =
     \<lparr>tc_filePath = ''/src/file.ts'', leftFileStart = None, leftFileEnd = None,
      rightFileStart = Some exampleStart, rightFileEnd = None\<rparr>"

definition noEndThread :: ReviewThread where
  "noEndThread =
     \<lparr>comments = [exampleComment ''Unused constant'' (Some (decimal 9 1))],
      status = Finite 1, threadContext = Some noEndContext\<rparr>"

text \<open>The policy of the engine test with cross-file dedup enabled, and the state of a run
  whose latch is set after one comment.\<close>

definition latchPolicy :: ReviewPolicy where
  "latchPolicy =
     testPolicy\<lparr>dedupeAcrossFiles := \<lparr>dedupe_enabled = True, threshold = Finite 0\<rparr>\<rparr>"

definition latchInput :: ReviewInput where
  "latchInput = \<lparr>ri_files = [testFile, testFile], policy = latchPolicy, previousComments = None\<rparr>"

section \<open>Properties of the numbers\<close>

lemma bitLength_bounds:
  "0 < n \<Longrightarrow> 2 ^ (bitLength n - 1) \<le> n \<and> n < 2 ^ bitLength n"
proof (induction n rule: bitLength.induct)
  case (1 n)
  show ?case
  proof (cases "n div 2 = 0")
    case True
    with 1(2) have "n = 1" by (simp add: div_eq_0_iff) 
    then show ?thesis by (simp add: bitLength.simps)
  next
    case False
    then have pos: "0 < n div 2" by simp
    from 1(1) [OF _ pos] 1(2)
    have ih: "2 ^ (bitLength (n div 2) - 1) \<le> n div 2" "n div 2 < 2 ^ bitLength (n div 2)"
      by simp_all
    have bl: "bitLength n = Suc (bitLength (n div 2))"
      using 1(2) by (subst bitLength.simps) simp
    have bpos: "0 < bitLength (n div 2)"
      using pos by (subst bitLength.simps) simp
    then obtain b where b: "bitLength (n div 2) = Suc b" by (cases "bitLength (n div 2)") auto
    have "2 * 2 ^ b \<le> 2 * (n div 2)" using ih(1) b by simp
    also have "\<dots> \<le> n" by simp
    finally have lo: "2 ^ (bitLength n - 1) \<le> n" by (simp add: bl b)
    have "n < 2 * (n div 2) + 2" by presburger
    also have "\<dots> \<le> 2 * 2 ^ bitLength (n div 2)" using ih(2) by simp
    finally have hi: "n < 2 ^ bitLength n" by (simp add: bl)
    from lo hi show ?thesis by simp
  qed
qed

lemma bitLength_pos: "0 < n \<Longrightarrow> 0 < bitLength n"
  by (subst bitLength.simps) simp

lemma lt_irrefl [simp]: "\<not> lt a a"
  by (cases a) simp_all

lemma lt_trans: "lt a b \<Longrightarrow> lt b c \<Longrightarrow> lt a c"
  by (cases a; cases b; cases c) simp_all

lemma lt_negtrans:
  "a \<noteq> NaN \<Longrightarrow> b \<noteq> NaN \<Longrightarrow> c \<noteq> NaN \<Longrightarrow> \<not> lt a b \<Longrightarrow> \<not> lt b c \<Longrightarrow> \<not> lt a c"
  by (cases a; cases b; cases c) simp_all

lemma lt_NaN [simp]: "\<not> lt NaN a" "\<not> lt a NaN"
  by (cases a; simp)+

lemma mathAbs_not_below_zero [simp]: "\<not> lt (mathAbs a) (Finite 0)"
  by (cases a) simp_all

lemma roundHalfEven_of_int [simp]: "roundHalfEven (of_int j) = j"
  by (simp add: roundHalfEven_def)

lemma roundHalfEven_nonzero:
  assumes "1 \<le> \<bar>z\<bar>"
  shows "roundHalfEven z \<noteq> 0"
proof -
  define f where "f = \<lfloor>z\<rfloor>"
  have r: "roundHalfEven z = f \<or> roundHalfEven z = f + 1"
    by (simp add: roundHalfEven_def Let_def f_def)
  show ?thesis
  proof (cases "0 \<le> z")
    case True
    with assms have "1 \<le> f" by (simp add: le_floor_iff f_def)
    with r show ?thesis by auto
  next
    case False
    with assms have z: "z \<le> - 1" by simp
    then have f: "f \<le> - 1" by (simp add: floor_le_iff f_def)
    show ?thesis
    proof (cases "f = - 1")
      case True
      then have "- 1 \<le> z" unfolding f_def by (metis of_int_floor_le of_int_minus of_int_1)
      with z have "z = of_int (- 1)" by simp
      then have "roundHalfEven z = - 1" by (simp only: roundHalfEven_of_int)
      then show ?thesis by simp
    next
      case False
      with f have "f \<le> - 2" by simp
      with r show ?thesis by auto
    qed
  qed
qed

lemma pow2_pos [simp]: "0 < pow2 k"
  by (simp add: pow2_def)

lemma ilog2_whole:
  assumes "1 \<le> x"
  shows "0 \<le> ilog2 x" and "2 ^ nat (ilog2 x) \<le> x" and "x < 2 ^ nat (ilog2 x + 1)"
proof -
  let ?n = "nat \<lfloor>x\<rfloor>"
  have n: "0 < ?n" using assms by (simp add: le_floor_iff)
  have e: "ilog2 x = int (bitLength ?n) - 1" using assms by (simp add: ilog2_def)
  have bp: "0 < bitLength ?n" using n by (rule bitLength_pos)
  show "0 \<le> ilog2 x" using e bp by simp
  have ne: "nat (ilog2 x) = bitLength ?n - 1" using e bp by simp
  have ne1: "nat (ilog2 x + 1) = bitLength ?n" using e bp by simp
  from bitLength_bounds [OF n] have lo: "2 ^ (bitLength ?n - 1) \<le> ?n" and hi: "?n < 2 ^ bitLength ?n"
    by simp_all
  have "(2::real) ^ (bitLength ?n - 1) = real (2 ^ (bitLength ?n - 1))" by simp
  also have "\<dots> \<le> real ?n" using lo by (simp only: of_nat_le_iff)
  also have "\<dots> \<le> x" using assms by (simp add: le_floor_iff)
  finally show "2 ^ nat (ilog2 x) \<le> x" by (simp add: ne)
  have "\<lfloor>x\<rfloor> < 2 ^ bitLength ?n"
  proof -
    have "int ?n < int (2 ^ bitLength ?n)" using hi by (simp only: of_nat_less_iff)
    then show ?thesis using n by simp
  qed
  then have "x < of_int (2 ^ bitLength ?n)" by (simp only: floor_less_iff)
  then show "x < 2 ^ nat (ilog2 x + 1)" by (simp add: ne1)
qed

lemma round64_ge_one:
  assumes "1 \<le> \<bar>y\<bar>"
  shows "round64 y \<noteq> Finite 0"
proof -
  have y0: "y \<noteq> 0" using assms by auto
  let ?e = "ilog2 \<bar>y\<bar>"
  from ilog2_whole [OF assms] have e0: "0 \<le> ?e" and lo: "2 ^ nat ?e \<le> \<bar>y\<bar>" by simp_all
  have q: "quantum y = pow2 (?e - 52)" using e0 by (simp add: quantum_def max_def)
  have "quantum y \<le> 2 ^ nat ?e"
  proof (cases "0 \<le> ?e - 52")
    case True
    then have "quantum y = 2 ^ nat (?e - 52)" by (simp add: q pow2_def)
    also have "\<dots> \<le> 2 ^ nat ?e" by (rule power_increasing) simp_all
    finally show ?thesis .
  next
    case False
    then have "quantum y = 1 / 2 ^ nat (52 - ?e)" by (simp add: q pow2_def)
    also have "\<dots> \<le> 1" by simp
    also have "\<dots> \<le> 2 ^ nat ?e" by simp
    finally show ?thesis .
  qed
  with lo have "quantum y \<le> \<bar>y\<bar>" by simp
  moreover have qp: "0 < quantum y" by (simp add: quantum_def)
  ultimately have "1 \<le> \<bar>y / quantum y\<bar>" by (simp add: le_divide_eq)
  then have "roundHalfEven (y / quantum y) \<noteq> 0" by (rule roundHalfEven_nonzero)
  then have "of_int (roundHalfEven (y / quantum y)) * quantum y \<noteq> 0" using qp by simp
  then show ?thesis using y0 by (simp add: round64_def Let_def)
qed

lemma round64_exact:
  assumes "x / quantum x = of_int j" and "\<bar>x\<bar> < 2 ^ 1024"
  shows "round64 x = Finite x"
proof (cases "x = 0")
  case True
  then show ?thesis by (simp add: round64_def)
next
  case False
  have qp: "0 < quantum x" by (simp add: quantum_def)
  have "roundHalfEven (x / quantum x) = j" by (simp add: assms(1))
  moreover have "of_int j * quantum x = x"
    using assms(1) qp by (simp add: field_simps)
  ultimately have "of_int (roundHalfEven (x / quantum x)) * quantum x = x" by simp
  then show ?thesis using False assms(2) by (simp add: round64_def Let_def)
qed

lemma round64_of_int:
  assumes "\<bar>k\<bar> \<le> 2 ^ 53"
  shows "round64 (of_int k) = Finite (of_int k)"
proof (cases "k = 0")
  case True
  then show ?thesis by (simp add: round64_def)
next
  case False
  let ?x = "of_int k :: real"
  have one: "1 \<le> \<bar>?x\<bar>" using False by (simp flip: of_int_abs add: le_floor_iff)
  let ?e = "ilog2 \<bar>?x\<bar>"
  from ilog2_whole [OF one] have e0: "0 \<le> ?e" and lo: "2 ^ nat ?e \<le> \<bar>?x\<bar>" by simp_all
  have q: "quantum ?x = pow2 (?e - 52)" using e0 by (simp add: quantum_def max_def)
  have ub: "\<bar>?x\<bar> \<le> 2 ^ 53" using assms by (simp flip: of_int_abs add: of_int_le_iff [symmetric] del: of_int_le_iff)
  have e53: "?e \<le> 53"
  proof (rule ccontr)
    assume "\<not> ?e \<le> 53"
    then have "54 \<le> nat ?e" by simp
    then have "(2::real) ^ 54 \<le> 2 ^ nat ?e" by (intro power_increasing) simp_all
    with lo ub show False by simp
  qed
  have "\<exists>j. ?x / quantum ?x = of_int j"
  proof (cases "?e = 53")
    case True
    then have "quantum ?x = 2" by (simp add: q pow2_def)
    moreover have "\<bar>?x\<bar> = 2 ^ 53" using lo ub True by simp
    then have "?x = 2 ^ 53 \<or> ?x = - (2 ^ 53)" by (simp add: abs_if split: if_splits)
    ultimately show ?thesis
    proof (elim disjE)
      assume "quantum ?x = 2" "?x = 2 ^ 53"
      then have "?x / quantum ?x = of_int (2 ^ 52)" by simp
      then show ?thesis ..
    next
      assume "quantum ?x = 2" "?x = - (2 ^ 53)"
      then have "?x / quantum ?x = of_int (- (2 ^ 52))" by simp
      then show ?thesis ..
    qed
  next
    case False
    with e53 have "?e - 52 \<le> 0" by simp
    then have "quantum ?x = 1 / 2 ^ nat (52 - ?e)"
      by (cases "?e = 52") (simp_all add: q pow2_def)
    then have "?x / quantum ?x = of_int (k * 2 ^ nat (52 - ?e))" by simp
    then show ?thesis ..
  qed
  then obtain j where j: "?x / quantum ?x = of_int j" ..
  have "\<bar>?x\<bar> < 2 ^ 1024"
  proof -
    have "(2::real) ^ 53 < 2 ^ 1024" by (rule power_strict_increasing) simp_all
    with ub show ?thesis by simp
  qed
  with j show ?thesis by (rule round64_exact)
qed

lemma round64_whole:
  assumes "x = of_int \<lfloor>x\<rfloor>" and "\<bar>x\<bar> \<le> 2 ^ 53"
  shows "round64 x = Finite x"
proof -
  have "\<bar>of_int \<lfloor>x\<rfloor> :: real\<bar> \<le> 2 ^ 53" using assms by simp
  then have "\<bar>\<lfloor>x\<rfloor>\<bar> \<le> 2 ^ 53"
    by (metis of_int_abs of_int_le_iff of_int_numeral of_int_power)
  then have "round64 (of_int \<lfloor>x\<rfloor>) = Finite (of_int \<lfloor>x\<rfloor>)" by (rule round64_of_int)
  with assms(1) show ?thesis by simp
qed

lemmas num_defs = round64_def quantum_def ilog2_def pow2_def roundHalfEven_def Let_def
  bitLength.simps

text \<open>The doubles that the decimal literals of the examples denote.\<close>

lemma decimal_literals:
  "decimal 9 1 = Finite (8106479329266893 / 9007199254740992)"
  "decimal 1 1 = Finite (3602879701896397 / 36028797018963968)"
  "decimal 8 1 = Finite (3602879701896397 / 4503599627370496)"
  "decimal 6 1 = Finite (5404319552844595 / 9007199254740992)"
  "decimal 14 1 = Finite (3152519739159347 / 2251799813685248)"
  "decimal 14 2 = Finite (1261007895663739 / 9007199254740992)"
  "decimal (- 2) 1 = Finite (- (3602879701896397 / 18014398509481984))"
  "decimal 7 1 = Finite (3152519739159347 / 4503599627370496)"
  "decimal 5 1 = Finite (1 / 2)"
  "decimal 2 1 = Finite (3602879701896397 / 18014398509481984)"
  by (simp_all add: decimal_def num_defs)

lemmas decimal_values = decimal_literals decimal_literals [unfolded One_nat_def]




lemma quantum_pos [simp]: "0 < quantum x"
  by (simp add: quantum_def)

lemma quantum_nonneg [simp]: "0 \<le> quantum x"
  by (simp add: quantum_def less_imp_le)




section \<open>Properties of the string operations\<close>

lemma indexOfFrom_cases:
  "(indexOfFrom s t i = - 1 \<and> (\<forall>k\<le>length s. \<not> prefix t (drop k s))) \<or>
   (\<exists>k\<le>length s. indexOfFrom s t i = i + int k \<and> prefix t (drop k s) \<and>
      (\<forall>j<k. \<not> prefix t (drop j s)))"
proof (induction s arbitrary: i)
  case Nil
  then show ?case by auto
next
  case (Cons c cs)
  show ?case
  proof (cases "prefix t (c # cs)")
    case True
    then show ?thesis by auto
  next
    case False
    from Cons.IH [of "i + 1"] show ?thesis
    proof
      assume a: "indexOfFrom cs t (i + 1) = - 1 \<and> (\<forall>k\<le>length cs. \<not> prefix t (drop k cs))"
      have "\<forall>k\<le>length (c # cs). \<not> prefix t (drop k (c # cs))"
      proof (intro allI impI)
        fix k assume "k \<le> length (c # cs)"
        then show "\<not> prefix t (drop k (c # cs))"
          using a False by (cases k) auto
      qed
      with a False show ?thesis by simp
    next
      assume "\<exists>k\<le>length cs. indexOfFrom cs t (i + 1) = i + 1 + int k \<and> prefix t (drop k cs) \<and>
        (\<forall>j<k. \<not> prefix t (drop j cs))"
      then obtain k where k: "k \<le> length cs" "indexOfFrom cs t (i + 1) = i + 1 + int k"
        "prefix t (drop k cs)" "\<forall>j<k. \<not> prefix t (drop j cs)" by blast
      have "\<forall>j<Suc k. \<not> prefix t (drop j (c # cs))"
      proof (intro allI impI)
        fix j assume "j < Suc k"
        then show "\<not> prefix t (drop j (c # cs))"
          using k(4) False by (cases j) auto
      qed
      with k False have "Suc k \<le> length (c # cs) \<and> indexOfFrom (c # cs) t i = i + int (Suc k) \<and>
         prefix t (drop (Suc k) (c # cs)) \<and> (\<forall>j<Suc k. \<not> prefix t (drop j (c # cs)))"
        by simp
      then show ?thesis by blast
    qed
  qed
qed

lemma indexOf_first_occurrence:
  assumes "str_includes s t"
  shows "\<exists>k. indexOf s t = int k \<and> firstOccurrence s t k"
  using assms indexOfFrom_cases [of s t 0]
  by (auto simp: str_includes_def indexOf_def firstOccurrence_def)

lemma str_includes_sublist: "str_includes s t \<longleftrightarrow> sublist t s"
proof
  assume "str_includes s t"
  then obtain k where "prefix t (drop k s)"
    using indexOf_first_occurrence unfolding firstOccurrence_def by blast
  then obtain r where "drop k s = t @ r" by (auto simp: prefix_def)
  then have "s = take k s @ t @ r" by (metis append_take_drop_id)
  then show "sublist t s" unfolding sublist_def by blast
next
  assume "sublist t s"
  then obtain ps ss where s: "s = ps @ t @ ss" unfolding sublist_def by blast
  then have "prefix t (drop (length ps) s)" "length ps \<le> length s" by auto
  with indexOfFrom_cases [of s t 0] have "indexOfFrom s t 0 \<noteq> - 1" by auto
  then show "str_includes s t" by (simp add: str_includes_def indexOf_def)
qed

lemma split_newlines_nonempty: "split_newlines s \<noteq> []"
proof -
  have "splitLines p s \<noteq> []" for p
    by (induction p s rule: splitLines.induct) auto
  then show ?thesis by (simp add: split_newlines_def)
qed

section \<open>The position fixer chooses the closest matching line\<close>

lemmas fixer_defs =
  fixThreadContextLineNumberAndOffsets_def sideStart_def sideEnd_def setSide_def hasSnippet_def
  updateFileStartAndEnd_def updateFileEndForMultilineSnippet_def split_newlines_def
  isLineBreak_def getLineNumberAndOffset_def getGitDiffLine_def getChangesFromDiff_def
  filterChanges_def str_includes_def indexOf_def findClosestLine_def closerThan_def
  undefinedToNaN_def getLineNumber_def Let_def round64_whole

lemma closerThan_lineDist:
  "closerThan (getLineNumber c side) (getLineNumber p side) n
     = lt (lineDist side n c) (lineDist side n p)"
  by (simp add: closerThan_def lineDist_def)

text \<open>
  The loop of \<^verbatim>\<open>findClosestLine\<close> for any distance \<open>D\<close> under which being not closer is
  transitive on the records at hand.
\<close>

lemma foldl_closest:
  fixes D :: "AnyLineChange \<Rightarrow> number"
  defines "step \<equiv> \<lambda>previous current. if lt (D current) (D previous) then current else previous"
  assumes nt: "\<And>x y z. x \<in> S \<Longrightarrow> y \<in> S \<Longrightarrow> z \<in> S \<Longrightarrow>
      \<not> lt (D x) (D y) \<Longrightarrow> \<not> lt (D y) (D z) \<Longrightarrow> \<not> lt (D x) (D z)"
    and "set xs \<subseteq> S" and "a \<in> S"
  shows "(foldl step a xs = a \<and> (\<forall>x\<in>set xs. \<not> lt (D x) (D a)))
       \<or> (\<exists>pre m post. xs = pre @ m # post \<and> foldl step a xs = m \<and> lt (D m) (D a) \<and>
            (\<forall>x\<in>set pre. lt (D m) (D x)) \<and> (\<forall>x\<in>set post. \<not> lt (D x) (D m)))"
  using assms(3,4)
proof (induction xs arbitrary: a)
  case Nil
  then show ?case by simp
next
  case (Cons x xs)
  have xS: "x \<in> S" and xsS: "set xs \<subseteq> S" using Cons.prems(1) by auto
  show ?case
  proof (cases "lt (D x) (D a)")
    case True
    then have st: "step a x = x" by (simp add: step_def)
    from Cons.IH [OF xsS xS] show ?thesis
    proof
      assume h: "foldl step x xs = x \<and> (\<forall>y\<in>set xs. \<not> lt (D y) (D x))"
      have "x # xs = [] @ x # xs \<and> foldl step a (x # xs) = x \<and> lt (D x) (D a) \<and>
        (\<forall>y\<in>set []. lt (D x) (D y)) \<and> (\<forall>y\<in>set xs. \<not> lt (D y) (D x))"
        using h st True by simp
      then show ?thesis by blast
    next
      assume "\<exists>pre m post. xs = pre @ m # post \<and> foldl step x xs = m \<and> lt (D m) (D x) \<and>
            (\<forall>y\<in>set pre. lt (D m) (D y)) \<and> (\<forall>y\<in>set post. \<not> lt (D y) (D m))"
      then obtain pre m post where h: "xs = pre @ m # post" "foldl step x xs = m"
        "lt (D m) (D x)" "\<forall>y\<in>set pre. lt (D m) (D y)" "\<forall>y\<in>set post. \<not> lt (D y) (D m)"
        by blast
      have ma: "lt (D m) (D a)" using h(3) True by (rule lt_trans)
      have "x # xs = (x # pre) @ m # post \<and> foldl step a (x # xs) = m \<and> lt (D m) (D a) \<and>
        (\<forall>y\<in>set (x # pre). lt (D m) (D y)) \<and> (\<forall>y\<in>set post. \<not> lt (D y) (D m))"
        using h st ma by simp
      then show ?thesis by blast
    qed
  next
    case False
    then have st: "step a x = a" by (simp add: step_def)
    from Cons.IH [OF xsS Cons.prems(2)] show ?thesis
    proof
      assume h: "foldl step a xs = a \<and> (\<forall>y\<in>set xs. \<not> lt (D y) (D a))"
      then show ?thesis using st False by simp
    next
      assume "\<exists>pre m post. xs = pre @ m # post \<and> foldl step a xs = m \<and> lt (D m) (D a) \<and>
            (\<forall>y\<in>set pre. lt (D m) (D y)) \<and> (\<forall>y\<in>set post. \<not> lt (D y) (D m))"
      then obtain pre m post where h: "xs = pre @ m # post" "foldl step a xs = m"
        "lt (D m) (D a)" "\<forall>y\<in>set pre. lt (D m) (D y)" "\<forall>y\<in>set post. \<not> lt (D y) (D m)"
        by blast
      have mS: "m \<in> S" using h(1) xsS by auto
      have mx: "lt (D m) (D x)"
      proof (rule ccontr)
        assume "\<not> lt (D m) (D x)"
        from nt [OF mS xS Cons.prems(2) this False] h(3) show False by simp
      qed
      have "x # xs = (x # pre) @ m # post \<and> foldl step a (x # xs) = m \<and> lt (D m) (D a) \<and>
        (\<forall>y\<in>set (x # pre). lt (D m) (D y)) \<and> (\<forall>y\<in>set post. \<not> lt (D y) (D m))"
        using h st mx by simp
      then show ?thesis by blast
    qed
  qed
qed

lemma filterChanges_member:
  assumes "c \<in> set (filterChanges chs t side)"
  shows "getLineNumber c side \<noteq> None \<and> str_includes (content c) t \<and> c \<in> set chs"
proof -
  have "str_includes (content c) t \<and>
     (isUnchangedLine c \<or> (if side then isAddedLine c else isDeletedLine c)) \<and> c \<in> set chs"
    using assms by (simp add: filterChanges_def)
  then show ?thesis by (cases c) (auto simp: getLineNumber_def split: if_splits)
qed

lemma findClosestLine_Nil: "findClosestLine [] n side = None"
  by (simp add: findClosestLine_def)

lemma findClosestLine_Some:
  "lines \<noteq> [] \<Longrightarrow> \<exists>m. findClosestLine lines n side = Some m \<and> m \<in> set lines"
proof -
  assume "lines \<noteq> []"
  then obtain a rest where lines: "lines = a # rest" by (cases lines) auto
  let ?step = "\<lambda>previous current.
            if closerThan (getLineNumber current side) (getLineNumber previous side) n
            then current else previous"
  have "foldl ?step b xs \<in> insert b (set xs)" for b xs
    by (induction xs arbitrary: b) auto
  then have "foldl ?step a lines \<in> set lines" unfolding lines by simp
  then show ?thesis by (simp add: findClosestLine_def lines)
qed

text \<open>The distances of records with whole line numbers are all \<^verbatim>\<open>NaN\<close> or none is.\<close>

lemma round64_not_NaN [simp]: "round64 x \<noteq> NaN"
  by (simp add: round64_def Let_def)

lemma wholeNumber_Finite: "wholeNumber n \<Longrightarrow> \<exists>k. n = Finite (of_int k)"
  by (cases n) (auto simp: wholeNumber_def)

lemma wholeLines_getLineNumber:
  assumes "wholeLines c" and "getLineNumber c side = Some l"
  shows "\<exists>k. l = Finite (of_int k)"
  using assms wholeNumber_Finite
  by (auto simp: wholeLines_def getLineNumber_def split: if_splits)

lemma lineDist_uniform:
  assumes "\<forall>x\<in>S. wholeLines x \<and> getLineNumber x side \<noteq> None"
  shows "(\<forall>x\<in>S. lineDist side n x = NaN) \<or> (\<forall>x\<in>S. lineDist side n x \<noteq> NaN)"
proof -
  have fin: "\<exists>k. getLineNumber x side = Some (Finite (of_int k))" if "x \<in> S" for x
    using assms that wholeLines_getLineNumber by fastforce
  show ?thesis
  proof (cases n)
    case NaN
    then have "\<forall>x\<in>S. lineDist side n x = NaN"
      using fin by (fastforce simp: lineDist_def undefinedToNaN_def)
    then show ?thesis ..
  next
    case PosInfinity
    then have "\<forall>x\<in>S. lineDist side n x \<noteq> NaN"
      using fin by (fastforce simp: lineDist_def undefinedToNaN_def)
    then show ?thesis ..
  next
    case NegInfinity
    then have "\<forall>x\<in>S. lineDist side n x \<noteq> NaN"
      using fin by (fastforce simp: lineDist_def undefinedToNaN_def)
    then show ?thesis ..
  next
    case (Finite y)
    have "lineDist side n x \<noteq> NaN" if "x \<in> S" for x
    proof -
      from fin [OF that] obtain k where "getLineNumber x side = Some (Finite (of_int k))" ..
      then have "lineDist side n x = mathAbs (round64 (of_int k - y))"
        by (simp add: lineDist_def undefinedToNaN_def Finite)
      then show ?thesis by (cases "round64 (of_int k - y)") simp_all
    qed
    then show ?thesis by blast
  qed
qed

lemma findClosestLine_firstClosest:
  assumes ne: "lines \<noteq> []"
    and ln: "\<forall>x\<in>set lines. wholeLines x \<and> getLineNumber x side \<noteq> None"
  shows "\<exists>m. findClosestLine lines n side = Some m \<and> firstClosest lines side n m"
proof -
  obtain a rest where lines: "lines = a # rest" using ne by (cases lines) auto
  let ?D = "lineDist side n"
  let ?step = "\<lambda>previous current. if lt (?D current) (?D previous) then current else previous"
  have nt: "\<not> lt (?D x) (?D z)"
    if "x \<in> set lines" "y \<in> set lines" "z \<in> set lines" "\<not> lt (?D x) (?D y)" "\<not> lt (?D y) (?D z)"
    for x y z
    using lineDist_uniform [OF ln, of n]
  proof
    assume "\<forall>x\<in>set lines. ?D x = NaN"
    with that(1) show ?thesis by simp
  next
    assume "\<forall>x\<in>set lines. ?D x \<noteq> NaN"
    with that show ?thesis using lt_negtrans by blast
  qed
  have a: "a \<in> set lines" and rest: "set rest \<subseteq> set lines" using lines by auto
  have none: "\<forall>x\<in>set lines. getLineNumber x side \<noteq> None" using ln by blast
  have self: "?step a a = a" by simp
  have res: "findClosestLine lines n side = Some (foldl ?step a rest)"
    unfolding findClosestLine_def lines closerThan_lineDist using self by simp
  from foldl_closest [where D = ?D and S = "set lines", OF nt rest a] show ?thesis
  proof
    assume h: "foldl ?step a rest = a \<and> (\<forall>x\<in>set rest. \<not> lt (?D x) (?D a))"
    have "lines = [] @ a # rest" using lines by simp
    with h none have "firstClosest lines side n a"
      unfolding firstClosest_def by (metis empty_iff empty_set)
    with res h show ?thesis by simp
  next
    assume "\<exists>pre m post. rest = pre @ m # post \<and> foldl ?step a rest = m \<and>
            lt (?D m) (?D a) \<and> (\<forall>x\<in>set pre. lt (?D m) (?D x)) \<and>
            (\<forall>x\<in>set post. \<not> lt (?D x) (?D m))"
    then obtain pre m post where h: "rest = pre @ m # post" "foldl ?step a rest = m"
      "lt (?D m) (?D a)" "\<forall>x\<in>set pre. lt (?D m) (?D x)"
      "\<forall>x\<in>set post. \<not> lt (?D x) (?D m)" by blast
    have "lines = (a # pre) @ m # post \<and> (\<forall>x\<in>set (a # pre). lt (?D m) (?D x))"
      using h lines by simp
    with h(5) none have "firstClosest lines side n m"
      unfolding firstClosest_def by blast
    with res h show ?thesis by simp
  qed
qed

lemma getLineNumberAndOffset_none:
  assumes "filterChanges (getChangesFromDiff d) t side = []"
  shows "getLineNumberAndOffset d t n side = (None, None)"
  using assms by (simp add: getLineNumberAndOffset_def getGitDiffLine_def findClosestLine_Nil)

lemma getLineNumberAndOffset_found:
  assumes "filterChanges (getChangesFromDiff d) t side \<noteq> []"
  shows "\<exists>m l k. findClosestLine (filterChanges (getChangesFromDiff d) t side) n side = Some m \<and>
           m \<in> set (filterChanges (getChangesFromDiff d) t side) \<and>
           getLineNumber m side = Some l \<and> firstOccurrence (content m) t k \<and>
           getLineNumberAndOffset d t n side = (Some l, Some (int k + 1))"
proof -
  let ?cands = "filterChanges (getChangesFromDiff d) t side"
  from findClosestLine_Some [OF assms, of n side]
  obtain m where m: "findClosestLine ?cands n side = Some m" "m \<in> set ?cands" by blast
  then have "getLineNumber m side \<noteq> None" "str_includes (content m) t"
    using filterChanges_member by blast+
  then obtain l k where lk: "getLineNumber m side = Some l" "indexOf (content m) t = int k"
    "firstOccurrence (content m) t k"
    using indexOf_first_occurrence by blast
  have "getLineNumberAndOffset d t n side = (Some l, Some (int k + 1))"
    using m(1) lk by (simp add: getLineNumberAndOffset_def getGitDiffLine_def)
  with m lk show ?thesis by blast
qed

lemma getLineNumberAndOffset_match:
  assumes "filterChanges (getChangesFromDiff d) t side \<noteq> []"
    and "\<forall>c\<in>set (getChangesFromDiff d). wholeLines c"
  shows "\<exists>m l k. firstClosest (filterChanges (getChangesFromDiff d) t side) side n m \<and>
           getLineNumber m side = Some l \<and> firstOccurrence (content m) t k \<and>
           getLineNumberAndOffset d t n side = (Some l, Some (int k + 1))"
proof -
  let ?cands = "filterChanges (getChangesFromDiff d) t side"
  have ln: "\<forall>x\<in>set ?cands. wholeLines x \<and> getLineNumber x side \<noteq> None"
    using filterChanges_member assms(2) by blast
  from findClosestLine_firstClosest [OF assms(1) ln, of n]
  obtain m where m: "findClosestLine ?cands n side = Some m" "firstClosest ?cands side n m"
    by blast
  from getLineNumberAndOffset_found [OF assms(1), of n]
  obtain m' l k where f: "findClosestLine ?cands n side = Some m'"
    "getLineNumber m' side = Some l" "firstOccurrence (content m') t k"
    "getLineNumberAndOffset d t n side = (Some l, Some (int k + 1))" by blast
  from m(1) f(1) have "m' = m" by simp
  with m(2) f show ?thesis by blast
qed

text \<open>
  Claim C2. A side of a thread context whose start position carries a snippet that has a
  matching record in the diff, and whose end position is absent, is not fixed: the start
  is found, and the assignment to the line of the end position that is not there throws a
  \<^verbatim>\<open>TypeError\<close>. On the right side, which is fixed first, the error ends the fixing of the
  thread and of all threads of the file. The claim asks for the start and the end to be
  set for every thread whose start position carries a snippet.
\<close>

theorem missing_end_throws:
  assumes "sideStart ctx side = Some p" and "snippet p = Some text" and "text \<noteq> []"
    and "sideEnd ctx side = None"
    and "filterChanges (getChangesFromDiff d) (hd (split_newlines text)) side \<noteq> []"
  shows "fixThreadContextLineNumberAndOffsets ctx d side = Inl TypeError
    \<and> (side \<and> threadContext thread = Some ctx \<longrightarrow>
         fixThread d thread = Inl TypeError
         \<and> fixThreads d (thread # rest) = Inl TypeError
         \<and> (parseGitDiff diffText = d \<longrightarrow>
              fixThreadPositions parseGitDiff (thread # rest) diffText = Inl TypeError))"
proof -
  from getLineNumberAndOffset_found [OF assms(5), of "line p"]
  obtain l k where "getLineNumberAndOffset d (hd (split_newlines text)) (line p) side
      = (Some l, Some (int k + 1))" by blast
  then have "updateFileStartAndEnd p None d side = Inl TypeError"
    using assms(2) by (simp add: updateFileStartAndEnd_def Let_def)
  then have one: "fixThreadContextLineNumberAndOffsets ctx d side = Inl TypeError"
    using assms(1-4) by (simp add: fixThreadContextLineNumberAndOffsets_def hasSnippet_def)
  have "fixThread d thread = Inl TypeError
         \<and> fixThreads d (thread # rest) = Inl TypeError
         \<and> (parseGitDiff diffText = d \<longrightarrow>
              fixThreadPositions parseGitDiff (thread # rest) diffText = Inl TypeError)"
    if "side" "threadContext thread = Some ctx"
    using one that by (simp add: fixThread_def fixThreadPositions_def)
  with one show ?thesis by blast
qed

text \<open>
  The theorem at the example of the claim with the end position left out: the diff adds
  \<^verbatim>\<open>  const x = 1;\<close> as line 2543, the start is near line 2540 with the snippet
  \<^verbatim>\<open>const x = 1;\<close>, and fixing throws. With the end position there, the same thread is
  fixed to line 2543, offset 3.
\<close>

theorem missing_end_throws_witness:
  "sideStart noEndContext True = Some exampleStart
   \<and> snippet exampleStart = Some ''const x = 1;''
   \<and> sideEnd noEndContext True = None
   \<and> filterChanges (getChangesFromDiff exampleDiff) (hd (split_newlines ''const x = 1;'')) True
       = [AddedLine (Finite 2543) ''  const x = 1;'']
   \<and> fixThreadContextLineNumberAndOffsets noEndContext exampleDiff True = Inl TypeError
   \<and> fixThreadPositions (\<lambda>text. exampleDiff) [noEndThread] ''diff'' = Inl TypeError
   \<and> fixThreadContextLineNumberAndOffsets exampleContext exampleDiff True
       = Inr (exampleContext
               \<lparr>rightFileStart := Some (exampleStart\<lparr>line := Finite 2543, offset := Finite 3\<rparr>),
                rightFileEnd := Some (exampleEnd\<lparr>line := Finite 2543, offset := Finite 15\<rparr>)\<rparr>)"
proof -
  have h1: "sideStart noEndContext True = Some exampleStart"
    by (simp add: sideStart_def noEndContext_def)
  have h2: "snippet exampleStart = Some ''const x = 1;''" by (simp add: exampleStart_def)
  have h3: "''const x = 1;'' \<noteq> []" by simp
  have h4: "sideEnd noEndContext True = None" by (simp add: sideEnd_def noEndContext_def)
  have c: "filterChanges (getChangesFromDiff exampleDiff)
      (hd (split_newlines ''const x = 1;'')) True = [AddedLine (Finite 2543) ''  const x = 1;'']"
    by (simp add: fixer_defs exampleDiff_def)
  then have h5: "filterChanges (getChangesFromDiff exampleDiff)
      (hd (split_newlines ''const x = 1;'')) True \<noteq> []" by simp
  have h6: "threadContext noEndThread = Some noEndContext" by (simp add: noEndThread_def)
  note t = missing_end_throws [OF h1 h2 h3 h4 h5, where thread = noEndThread and rest = "[]"
      and parseGitDiff = "\<lambda>text. exampleDiff" and diffText = "''diff''"]
  have r1: "fixThreadContextLineNumberAndOffsets noEndContext exampleDiff True = Inl TypeError"
    using t by (rule conjunct1)
  have r2: "fixThreadPositions (\<lambda>text. exampleDiff) [noEndThread] ''diff'' = Inl TypeError"
    using t h6 by simp
  have r3: "fixThreadContextLineNumberAndOffsets exampleContext exampleDiff True
       = Inr (exampleContext
               \<lparr>rightFileStart := Some (exampleStart\<lparr>line := Finite 2543, offset := Finite 3\<rparr>),
                rightFileEnd := Some (exampleEnd\<lparr>line := Finite 2543, offset := Finite 15\<rparr>)\<rparr>)"
    by (simp add: fixer_defs exampleContext_def exampleStart_def exampleEnd_def exampleDiff_def)
  show ?thesis using h1 h2 h4 c r1 r2 r3 by (intro conjI) assumption+
qed

section \<open>Only the first file of a diff is searched\<close>

lemma getChangesFromDiff_first_file:
  "getChangesFromDiff (d\<lparr>files := f # rest\<rparr>) = concat (map chunkChanges (chunks f))"
  by (simp add: getChangesFromDiff_def)

lemma getLineNumberAndOffset_first_file:
  "getLineNumberAndOffset (d\<lparr>files := f # rest\<rparr>) t n side
     = getLineNumberAndOffset (d\<lparr>files := [f]\<rparr>) t n side"
  unfolding getLineNumberAndOffset_def getGitDiffLine_def getChangesFromDiff_first_file ..

lemma updateFileStartAndEnd_first_file:
  "updateFileStartAndEnd s e (d\<lparr>files := f # rest\<rparr>) side
     = updateFileStartAndEnd s e (d\<lparr>files := [f]\<rparr>) side"
  unfolding updateFileStartAndEnd_def updateFileEndForMultilineSnippet_def
    getLineNumberAndOffset_first_file [where d = d and f = f and rest = rest] ..

lemma fixThreadContext_first_file:
  "fixThreadContextLineNumberAndOffsets ctx (d\<lparr>files := f # rest\<rparr>) side
     = fixThreadContextLineNumberAndOffsets ctx (d\<lparr>files := [f]\<rparr>) side"
  unfolding fixThreadContextLineNumberAndOffsets_def updateFileStartAndEnd_first_file [where d = d and f = f and rest = rest] ..

lemma fixThread_first_file:
  "fixThread (d\<lparr>files := f # rest\<rparr>) thread = fixThread (d\<lparr>files := [f]\<rparr>) thread"
  unfolding fixThread_def fixThreadContext_first_file [where d = d and f = f and rest = rest] ..

lemma fixThreads_first_file:
  "fixThreads (d\<lparr>files := f # rest\<rparr>) ts = fixThreads (d\<lparr>files := [f]\<rparr>) ts"
  by (induction ts)
     (simp_all add: fixThread_first_file [where d = d and f = f and rest = rest]
        split: sum.splits)

text \<open>
  Claim C10. For a parsed diff with the files \<open>f # rest\<close>, the records searched are those
  of the chunks of \<open>f\<close>, and the threads are fixed as they are for the diff with \<open>f\<close> alone.
  When the first line of the snippet of a side occurs in no record of \<open>f\<close>, whatever the
  later files contain, the thread context is returned unchanged.
\<close>

theorem fixThreadPositions_first_file_only:
  "getChangesFromDiff (d\<lparr>files := f # rest\<rparr>) = concat (map chunkChanges (chunks f))
   \<and> fixThreadPositions parseGitDiff ts text
       = (if ts = [] then Inr ts
          else fixThreads ((parseGitDiff text)\<lparr>files := take 1 (files (parseGitDiff text))\<rparr>) ts)
   \<and> (sideStart ctx side = Some p \<and> snippet p = Some snip
        \<and> (\<forall>c\<in>set (concat (map chunkChanges (chunks f))).
              \<not> str_includes (content c) (hd (split_newlines snip)))
      \<longrightarrow> fixThreadContextLineNumberAndOffsets ctx (d\<lparr>files := f # rest\<rparr>) side = Inr ctx)"
proof (intro conjI impI)
  show "getChangesFromDiff (d\<lparr>files := f # rest\<rparr>) = concat (map chunkChanges (chunks f))"
    by (rule getChangesFromDiff_first_file)
next
  have same: "(parseGitDiff text)\<lparr>files := files (parseGitDiff text)\<rparr> = parseGitDiff text"
    by simp
  show "fixThreadPositions parseGitDiff ts text
       = (if ts = [] then Inr ts
          else fixThreads ((parseGitDiff text)\<lparr>files := take 1 (files (parseGitDiff text))\<rparr>) ts)"
  proof (cases "files (parseGitDiff text)")
    case Nil
    then have eq: "(parseGitDiff text)\<lparr>files := []\<rparr> = parseGitDiff text"
      by (metis same)
    show ?thesis unfolding fixThreadPositions_def Nil by (simp add: eq)
  next
    case (Cons g gs)
    then have "(parseGitDiff text)\<lparr>files := g # gs\<rparr> = parseGitDiff text"
      by (metis same)
    then have "fixThreads (parseGitDiff text) ts
        = fixThreads ((parseGitDiff text)\<lparr>files := [g]\<rparr>) ts"
      using fixThreads_first_file [where d = "parseGitDiff text" and f = g and rest = gs
          and ts = ts] by simp
    with Cons show ?thesis by (simp add: fixThreadPositions_def)
  qed
next
  assume a: "sideStart ctx side = Some p \<and> snippet p = Some snip
        \<and> (\<forall>c\<in>set (concat (map chunkChanges (chunks f))).
              \<not> str_includes (content c) (hd (split_newlines snip)))"
  let ?d = "d\<lparr>files := f # rest\<rparr>"
  have "filterChanges (getChangesFromDiff ?d) (hd (split_newlines snip)) side = []"
    using a unfolding getChangesFromDiff_first_file filterChanges_def
    by (simp add: filter_empty_conv)
  then have none: "getLineNumberAndOffset ?d (hd (split_newlines snip)) (line p) side
      = (None, None)"
    by (rule getLineNumberAndOffset_none)
  have "updateFileStartAndEnd p (sideEnd ctx side) ?d side = Inr (p, sideEnd ctx side)"
    using a none unfolding updateFileStartAndEnd_def by (simp add: Let_def)
  moreover have "setSide ctx side (Some p) (sideEnd ctx side) = ctx"
    using a by (auto simp: setSide_def sideStart_def sideEnd_def split: if_splits)
  ultimately show "fixThreadContextLineNumberAndOffsets ctx ?d side = Inr ctx"
    using a by (simp add: fixThreadContextLineNumberAndOffsets_def Let_def)
qed

text \<open>
  The theorem at the diff of two files: the snippet line is in the second file only, and
  the context is returned unchanged.
\<close>

theorem fixThreadPositions_first_file_only_witness:
  "sideStart exampleContext True = Some exampleStart
   \<and> snippet exampleStart = Some ''const x = 1;''
   \<and> list_all (\<lambda>c. \<not> str_includes (content c) (hd (split_newlines ''const x = 1;'')))
       (concat (map chunkChanges (chunks (hd (files twoFileDiff)))))
   \<and> list_ex (\<lambda>c. str_includes (content c) (hd (split_newlines ''const x = 1;'')))
       (concat (map chunkChanges (chunks (hd (tl (files twoFileDiff))))))
   \<and> fixThreadContextLineNumberAndOffsets exampleContext twoFileDiff True = Inr exampleContext"
proof -
  let ?f = "hd (files twoFileDiff)" and ?rest = "tl (files twoFileDiff)"
  have d: "twoFileDiff\<lparr>files := ?f # ?rest\<rparr> = twoFileDiff"
    by (simp add: twoFileDiff_def)
  have h1: "sideStart exampleContext True = Some exampleStart"
    by (simp add: sideStart_def exampleContext_def)
  have h2: "snippet exampleStart = Some ''const x = 1;''"
    by (simp add: exampleStart_def)
  have h3: "list_all (\<lambda>c. \<not> str_includes (content c) (hd (split_newlines ''const x = 1;'')))
       (concat (map chunkChanges (chunks ?f)))"
    by (simp add: fixer_defs twoFileDiff_def)
  have h4: "list_ex (\<lambda>c. str_includes (content c) (hd (split_newlines ''const x = 1;'')))
       (concat (map chunkChanges (chunks (hd ?rest))))"
    by (simp add: fixer_defs twoFileDiff_def)
  from h3 have h3': "\<forall>c\<in>set (concat (map chunkChanges (chunks ?f))).
      \<not> str_includes (content c) (hd (split_newlines ''const x = 1;''))"
    by (simp add: list_all_iff)
  have "fixThreadContextLineNumberAndOffsets exampleContext (twoFileDiff\<lparr>files := ?f # ?rest\<rparr>)
      True = Inr exampleContext"
    using fixThreadPositions_first_file_only [where d = twoFileDiff and f = ?f
        and rest = ?rest and ctx = exampleContext and side = True and p = exampleStart
        and snip = "''const x = 1;''"] h1 h2 h3'
    by blast
  then have r: "fixThreadContextLineNumberAndOffsets exampleContext twoFileDiff True
      = Inr exampleContext"
    unfolding d .
  show ?thesis using h1 h2 h3 h4 r by (intro conjI) assumption+
qed

section \<open>What a fixed side looks like\<close>

lemma lineDist_exact:
  assumes "getLineNumber c side = Some (Finite (of_int a))" and "\<bar>a - b\<bar> \<le> 2 ^ 53"
  shows "lineDist side (Finite (of_int b)) c = Finite (of_int \<bar>a - b\<bar>)"
proof -
  have "round64 (of_int (a - b)) = Finite (of_int (a - b))"
    using assms(2) by (rule round64_of_int)
  then show ?thesis using assms(1) by (simp add: lineDist_def undefinedToNaN_def)
qed

text \<open>
  Take a parsed diff whose line numbers are whole numbers, and a side of a thread context
  whose start position \<open>p\<close> carries a non-empty snippet and whose end position \<open>e\<close> is there.
  The candidates are the records of the diff that are unchanged or of the changed type of
  the side (added on the right, deleted on the left) and whose content contains the first
  line of the snippet. With no candidate the context is returned as it is. Otherwise the
  fixer chooses the candidate \<open>m\<close> whose line number \<open>l\<close> on the side is closest to the line
  of \<open>p\<close>, the first such in diff order; the distance is the difference of the two numbers
  as a double, which is the exact difference for whole numbers up to \<open>2 ^ 53\<close>. The start
  becomes line \<open>l\<close> with offset \<open>k + 1\<close>, where \<open>k\<close> is the zero-based index of the first
  occurrence of the snippet line in the content of \<open>m\<close>. The end becomes line \<open>l\<close> with
  that offset plus the length of the first snippet line; for a snippet of several lines
  whose last line has candidates, the search is repeated with the last line and with \<open>l\<close>
  as the reference line, and the end becomes the line of that match with its one-based
  index plus the length of the last line.
\<close>

theorem fixThreadContext_side:
  fixes ctx :: ThreadContext and d :: GitDiff and side :: bool
  assumes "sideStart ctx side = Some p" and "snippet p = Some text" and "text \<noteq> []"
    and "sideEnd ctx side = Some e"
    and "\<forall>c\<in>set (getChangesFromDiff d). wholeLines c"
  defines "first \<equiv> hd (split_newlines text)" and "lst \<equiv> last (split_newlines text)"
  defines "cands \<equiv> filterChanges (getChangesFromDiff d) first side"
  defines "cands2 \<equiv> filterChanges (getChangesFromDiff d) lst side"
  shows "(cands = [] \<longrightarrow> fixThreadContextLineNumberAndOffsets ctx d side = Inr ctx) \<and>
    (cands \<noteq> [] \<longrightarrow>
      (\<exists>m l k e'. firstClosest cands side (line p) m \<and> getLineNumber m side = Some l \<and>
         firstOccurrence (content m) first k \<and>
         fixThreadContextLineNumberAndOffsets ctx d side =
           Inr (setSide ctx side (Some (p\<lparr>line := l, offset := Finite (of_int (int k + 1))\<rparr>))
                  (Some e')) \<and>
         (length (split_newlines text) \<le> 1 \<or> cands2 = [] \<longrightarrow>
            e' = e\<lparr>line := l, offset := Finite (of_int (int k + 1 + int (length first)))\<rparr>) \<and>
         (length (split_newlines text) > 1 \<and> cands2 \<noteq> [] \<longrightarrow>
            (\<exists>m2 l2 k2. firstClosest cands2 side l m2 \<and> getLineNumber m2 side = Some l2 \<and>
               firstOccurrence (content m2) lst k2 \<and>
               e' = e\<lparr>line := l2,
                      offset := Finite (of_int (int k2 + 1 + int (length lst)))\<rparr>)))) \<and>
    (\<forall>c a b. getLineNumber c side = Some (Finite (of_int a)) \<and> line p = Finite (of_int b)
         \<and> \<bar>a - b\<bar> \<le> 2 ^ 53 \<longrightarrow>
       lineDist side (line p) c = Finite (of_int \<bar>a - b\<bar>))"
proof (intro conjI impI allI)
  have hs: "hasSnippet (sideStart ctx side)" using assms(1-3) by (simp add: hasSnippet_def)
  {
    assume c: "cands = []"
    have "updateFileStartAndEnd p (Some e) d side = Inr (p, Some e)"
      using assms(2) getLineNumberAndOffset_none [of d first side "line p"] c
      unfolding updateFileStartAndEnd_def cands_def first_def by (simp add: Let_def)
    then have "fixThreadContextLineNumberAndOffsets ctx d side
        = Inr (setSide ctx side (Some p) (Some e))"
      using hs assms(1,4) by (simp add: fixThreadContextLineNumberAndOffsets_def Let_def)
    moreover have "setSide ctx side (Some p) (Some e) = ctx"
      using assms(1,4) by (auto simp: setSide_def sideStart_def sideEnd_def split: if_splits)
    ultimately show "fixThreadContextLineNumberAndOffsets ctx d side = Inr ctx" by simp
  }
  {
    assume c: "cands \<noteq> []"
    from getLineNumberAndOffset_match [of d first side "line p"] c assms(5)
    obtain m l k where m: "firstClosest cands side (line p) m" "getLineNumber m side = Some l"
      "firstOccurrence (content m) first k"
      "getLineNumberAndOffset d first (line p) side = (Some l, Some (int k + 1))"
      unfolding cands_def by blast
    define e1 where
      "e1 = e\<lparr>line := l, offset := Finite (of_int (int k + 1 + int (length first)))\<rparr>"
    define e' where "e' = (if length (split_newlines text) > 1
       then updateFileEndForMultilineSnippet e1 (split_newlines text) d side else e1)"
    have upd: "updateFileStartAndEnd p (Some e) d side
        = Inr (p\<lparr>line := l, offset := Finite (of_int (int k + 1))\<rparr>, Some e')"
      using assms(2) m(4)
      unfolding updateFileStartAndEnd_def first_def e'_def e1_def by (simp add: Let_def)
    have fixeq: "fixThreadContextLineNumberAndOffsets ctx d side =
           Inr (setSide ctx side (Some (p\<lparr>line := l, offset := Finite (of_int (int k + 1))\<rparr>))
                  (Some e'))"
      using hs assms(1,4) upd by (simp add: fixThreadContextLineNumberAndOffsets_def Let_def)
    have single: "length (split_newlines text) \<le> 1 \<or> cands2 = [] \<longrightarrow> e' = e1"
    proof
      assume "length (split_newlines text) \<le> 1 \<or> cands2 = []"
      then show "e' = e1"
      proof
        assume "length (split_newlines text) \<le> 1" then show ?thesis by (simp add: e'_def)
      next
        assume "cands2 = []"
        then have "getLineNumberAndOffset d lst (line e1) side = (None, None)"
          using getLineNumberAndOffset_none unfolding cands2_def by blast
        then show ?thesis
          by (simp add: e'_def updateFileEndForMultilineSnippet_def lst_def Let_def)
      qed
    qed
    have multi: "length (split_newlines text) > 1 \<and> cands2 \<noteq> [] \<longrightarrow>
            (\<exists>m2 l2 k2. firstClosest cands2 side l m2 \<and> getLineNumber m2 side = Some l2 \<and>
               firstOccurrence (content m2) lst k2 \<and>
               e' = e\<lparr>line := l2,
                      offset := Finite (of_int (int k2 + 1 + int (length lst)))\<rparr>)"
    proof
      assume a: "length (split_newlines text) > 1 \<and> cands2 \<noteq> []"
      have le1: "line e1 = l" by (simp add: e1_def)
      from getLineNumberAndOffset_match [of d lst side l] a assms(5)
      obtain m2 l2 k2 where m2: "firstClosest cands2 side l m2" "getLineNumber m2 side = Some l2"
        "firstOccurrence (content m2) lst k2"
        "getLineNumberAndOffset d lst l side = (Some l2, Some (int k2 + 1))"
        unfolding cands2_def by blast
      have "e' = e\<lparr>line := l2, offset := Finite (of_int (int k2 + 1 + int (length lst)))\<rparr>"
        using a m2(4) le1
        by (simp add: e'_def updateFileEndForMultilineSnippet_def lst_def Let_def e1_def)
      with m2 show "\<exists>m2 l2 k2. firstClosest cands2 side l m2 \<and> getLineNumber m2 side = Some l2 \<and>
               firstOccurrence (content m2) lst k2 \<and>
               e' = e\<lparr>line := l2,
                      offset := Finite (of_int (int k2 + 1 + int (length lst)))\<rparr>" by blast
    qed
    show "\<exists>m l k e'. firstClosest cands side (line p) m \<and> getLineNumber m side = Some l \<and>
         firstOccurrence (content m) first k \<and>
         fixThreadContextLineNumberAndOffsets ctx d side =
           Inr (setSide ctx side (Some (p\<lparr>line := l, offset := Finite (of_int (int k + 1))\<rparr>))
                  (Some e')) \<and>
         (length (split_newlines text) \<le> 1 \<or> cands2 = [] \<longrightarrow>
            e' = e\<lparr>line := l, offset := Finite (of_int (int k + 1 + int (length first)))\<rparr>) \<and>
         (length (split_newlines text) > 1 \<and> cands2 \<noteq> [] \<longrightarrow>
            (\<exists>m2 l2 k2. firstClosest cands2 side l m2 \<and> getLineNumber m2 side = Some l2 \<and>
               firstOccurrence (content m2) lst k2 \<and>
               e' = e\<lparr>line := l2,
                      offset := Finite (of_int (int k2 + 1 + int (length lst)))\<rparr>))"
      using m(1-3) fixeq single multi unfolding e1_def by blast
  }
  {
    fix c a b
    assume "getLineNumber c side = Some (Finite (of_int a)) \<and> line p = Finite (of_int b)
         \<and> \<bar>a - b\<bar> \<le> 2 ^ 53"
    then show "lineDist side (line p) c = Finite (of_int \<bar>a - b\<bar>)"
      using lineDist_exact by simp
  }
qed

text \<open>
  The theorem at the snippet of two lines: its hypotheses hold, the first snippet line
  has one candidate, and the context comes back with the start at line 2543, offset 3,
  and the end at line 2544, offset 12.
\<close>

theorem fixThreadContext_side_witness:
  "sideStart twoLineContext True = Some twoLineStart
   \<and> snippet twoLineStart = Some twoLineSnippet
   \<and> twoLineSnippet \<noteq> []
   \<and> sideEnd twoLineContext True = Some exampleEnd
   \<and> list_all wholeLines (getChangesFromDiff exampleDiff)
   \<and> filterChanges (getChangesFromDiff exampleDiff) (hd (split_newlines twoLineSnippet)) True
       = [AddedLine (Finite 2543) ''  const x = 1;'']
   \<and> fixThreadContextLineNumberAndOffsets twoLineContext exampleDiff True
       = Inr (twoLineContext
               \<lparr>rightFileStart := Some (twoLineStart\<lparr>line := Finite 2543, offset := Finite 3\<rparr>),
                rightFileEnd := Some (exampleEnd\<lparr>line := Finite 2544, offset := Finite 12\<rparr>)\<rparr>)"
proof -
  have h1: "sideStart twoLineContext True = Some twoLineStart"
    by (simp add: sideStart_def twoLineContext_def)
  have h2: "snippet twoLineStart = Some twoLineSnippet"
    by (simp add: twoLineStart_def)
  have h3: "twoLineSnippet \<noteq> []"
    by (simp add: twoLineSnippet_def)
  have h4: "sideEnd twoLineContext True = Some exampleEnd"
    by (simp add: sideEnd_def twoLineContext_def)
  have h5: "list_all wholeLines (getChangesFromDiff exampleDiff)"
    by (simp add: getChangesFromDiff_def exampleDiff_def wholeLines_def wholeNumber_def)
  then have h5': "\<forall>c\<in>set (getChangesFromDiff exampleDiff). wholeLines c"
    by (simp add: list_all_iff)
  have c: "filterChanges (getChangesFromDiff exampleDiff) (hd (split_newlines twoLineSnippet))
      True = [AddedLine (Finite 2543) ''  const x = 1;'']"
    by (simp add: fixer_defs twoLineSnippet_def exampleDiff_def)
  have r: "fixThreadContextLineNumberAndOffsets twoLineContext exampleDiff True
       = Inr (twoLineContext
               \<lparr>rightFileStart := Some (twoLineStart\<lparr>line := Finite 2543, offset := Finite 3\<rparr>),
                rightFileEnd := Some (exampleEnd\<lparr>line := Finite 2544, offset := Finite 12\<rparr>)\<rparr>)"
    by (simp add: fixer_defs twoLineContext_def twoLineStart_def twoLineSnippet_def
        exampleEnd_def exampleDiff_def)
  note t = fixThreadContext_side [OF h1 h2 h3 h4 h5']
  show ?thesis using t h1 h2 h3 h4 h5 c r by (intro conjI) assumption+
qed

text \<open>
  Distances are doubles. Seen from line \<open>10 ^ 17\<close> the lines 2543 and 2544 are at the same
  distance, since the doubles of that size are 16 apart, and the first of the two is
  kept, although 2544 is the nearer one. Seen from line 3000 the fixer chooses 2544.
\<close>

theorem closest_line_in_doubles:
  "lineDist True (Finite (10 ^ 17)) (AddedLine (Finite 2543) ''  const x = 1;'')
     = Finite 99999999999997456
   \<and> lineDist True (Finite (10 ^ 17)) (AddedLine (Finite 2544) ''  return x;'')
     = Finite 99999999999997456
   \<and> filterChanges (getChangesFromDiff exampleDiff) ''x'' True
       = [AddedLine (Finite 2543) ''  const x = 1;'', AddedLine (Finite 2544) ''  return x;'']
   \<and> map_sum id (map_option line \<circ> rightFileStart)
        (fixThreadContextLineNumberAndOffsets (farContext (Finite (10 ^ 17))) exampleDiff True)
       = Inr (Some (Finite 2543))
   \<and> map_sum id (map_option line \<circ> rightFileStart)
        (fixThreadContextLineNumberAndOffsets (farContext (Finite 3000)) exampleDiff True)
       = Inr (Some (Finite 2544))"
proof -
  have d1: "round64 (- 99999999999997457) = Finite (- 99999999999997456)"
    by (simp add: num_defs)
  have d2: "round64 (- 99999999999997456) = Finite (- 99999999999997456)"
    by (simp add: num_defs)
  have a: "lineDist True (Finite (10 ^ 17)) (AddedLine (Finite 2543) ''  const x = 1;'')
     = Finite 99999999999997456"
    by (simp add: lineDist_def getLineNumber_def undefinedToNaN_def d1)
  have b: "lineDist True (Finite (10 ^ 17)) (AddedLine (Finite 2544) ''  return x;'')
     = Finite 99999999999997456"
    by (simp add: lineDist_def getLineNumber_def undefinedToNaN_def d2)
  have c: "filterChanges (getChangesFromDiff exampleDiff) ''x'' True
       = [AddedLine (Finite 2543) ''  const x = 1;'', AddedLine (Finite 2544) ''  return x;'']"
    by (simp add: fixer_defs exampleDiff_def)
  have r1: "map_sum id (map_option line \<circ> rightFileStart)
        (fixThreadContextLineNumberAndOffsets (farContext (Finite (10 ^ 17))) exampleDiff True)
       = Inr (Some (Finite 2543))"
    by (simp add: fixThreadContextLineNumberAndOffsets_def sideStart_def sideEnd_def
        setSide_def hasSnippet_def updateFileStartAndEnd_def split_newlines_def isLineBreak_def
        getLineNumberAndOffset_def getGitDiffLine_def c findClosestLine_def closerThan_def
        undefinedToNaN_def getLineNumber_def Let_def d1 d2 farContext_def exampleEnd_def)
  have r2: "map_sum id (map_option line \<circ> rightFileStart)
        (fixThreadContextLineNumberAndOffsets (farContext (Finite 3000)) exampleDiff True)
       = Inr (Some (Finite 2544))"
    by (simp add: fixThreadContextLineNumberAndOffsets_def sideStart_def sideEnd_def
        setSide_def hasSnippet_def updateFileStartAndEnd_def split_newlines_def isLineBreak_def
        getLineNumberAndOffset_def getGitDiffLine_def c findClosestLine_def closerThan_def
        undefinedToNaN_def getLineNumber_def Let_def round64_whole farContext_def exampleEnd_def)
  show ?thesis using a b c r1 r2 by (intro conjI) assumption+
qed

text \<open>
  The doubles of the model at whole numbers: every whole number up to \<open>2 ^ 53\<close> in
  magnitude is a double, so rounding leaves it as it is; beyond, the doubles are two apart
  and then four, with ties going to the even significand; and no number of magnitude 1 or
  more rounds to zero, so two different whole numbers are never at distance zero.
\<close>

theorem whole_numbers_are_doubles:
  "(\<bar>k\<bar> \<le> 2 ^ 53 \<longrightarrow> round64 (of_int k) = Finite (of_int k))
   \<and> (1 \<le> \<bar>y\<bar> \<longrightarrow> round64 y \<noteq> Finite 0)
   \<and> round64 (2 ^ 53 + 1) = Finite (2 ^ 53)
   \<and> round64 (2 ^ 53 + 3) = Finite (2 ^ 53 + 4)
   \<and> round64 (2 ^ 54 + 2) = Finite (2 ^ 54)"
proof (intro conjI impI)
  show "round64 (of_int k) = Finite (of_int k)" if "\<bar>k\<bar> \<le> 2 ^ 53"
    using that by (rule round64_of_int)
  show "round64 y \<noteq> Finite 0" if "1 \<le> \<bar>y\<bar>"
    using that by (rule round64_ge_one)
  show "round64 (2 ^ 53 + 1) = Finite (2 ^ 53)" by (simp add: num_defs)
  show "round64 (2 ^ 53 + 3) = Finite (2 ^ 53 + 4)" by (simp add: num_defs)
  show "round64 (2 ^ 54 + 2) = Finite (2 ^ 54)" by (simp add: num_defs)
qed

text \<open>The theorem at the line number 2543 and at the difference of 2543 and 2540.\<close>

theorem whole_numbers_are_doubles_witness:
  "\<bar>2543 :: int\<bar> \<le> 2 ^ 53 \<and> round64 (of_int 2543) = Finite 2543
   \<and> (1 :: real) \<le> \<bar>2543 - 2540\<bar> \<and> round64 (2543 - 2540) \<noteq> Finite 0"
proof -
  note t = whole_numbers_are_doubles [where k = 2543 and y = "2543 - 2540"]
  have h1: "\<bar>2543 :: int\<bar> \<le> 2 ^ 53" by simp
  have "round64 (of_int 2543) = Finite (of_int 2543)" using t h1 by blast
  then have r1: "round64 (of_int 2543) = Finite 2543" by simp
  have h2: "(1 :: real) \<le> \<bar>2543 - 2540\<bar>" by simp
  have r2: "round64 (2543 - 2540) \<noteq> Finite 0" using t h2 by blast
  show ?thesis using h1 r1 h2 r2 by (intro conjI) assumption+
qed

section \<open>The confidence filters\<close>

lemma filterCommentsLoop_filter:
  "filterCommentsLoop m cs (out, remaining) =
     (out @ filter (\<lambda>c. scoreBelow m (confidenceScore c)) cs,
      remaining @ filter (\<lambda>c. \<not> scoreBelow m (confidenceScore c)) cs)"
  by (induction cs arbitrary: out remaining) (auto simp: scoreBelow_def)

lemma filterCommentsByPolicy_remaining:
  "snd (filterCommentsByPolicy cs pol) =
     (if conf_enabled (confidence pol)
      then filter (\<lambda>c. \<not> scoreBelow (minimum (confidence pol)) (confidenceScore c)) cs
      else cs)"
  by (simp add: filterCommentsByPolicy_def filterCommentsByConfidence_def
      filterCommentsLoop_filter)

lemma confidenceLoop_filter:
  "confidenceLoop m fs (remaining, out) =
     (remaining @ filter (\<lambda>f. \<not> scoreBelow m (f_confidence f)) fs,
      out @ filter (\<lambda>f. scoreBelow m (f_confidence f)) fs)"
  by (induction fs arbitrary: out remaining) (auto simp: scoreBelow_def)

lemma applyConfidenceFilter_enabled:
  "conf_enabled (confidence pol) \<Longrightarrow>
   applyConfidenceFilterToFindings fs pol =
     (filter (\<lambda>f. \<not> scoreBelow (minimum (confidence pol)) (f_confidence f)) fs,
      filter (\<lambda>f. scoreBelow (minimum (confidence pol)) (f_confidence f)) fs)"
  by (simp add: applyConfidenceFilterToFindings_def confidenceLoop_filter)

lemma applyConfidenceFilter_disabled:
  "\<not> conf_enabled (confidence pol) \<Longrightarrow> applyConfidenceFilterToFindings fs pol = (fs, [])"
  by (simp add: applyConfidenceFilterToFindings_def)

lemma applyConfidenceFilter_mset:
  "mset (fst (applyConfidenceFilterToFindings fs pol))
     + mset (snd (applyConfidenceFilterToFindings fs pol)) = mset fs"
  by (cases "conf_enabled (confidence pol)")
     (simp_all add: applyConfidenceFilter_enabled applyConfidenceFilter_disabled)

lemma applyConfidenceFilter_subset:
  "set (fst (applyConfidenceFilterToFindings fs pol)) \<subseteq> set fs"
  by (cases "conf_enabled (confidence pol)")
     (auto simp: applyConfidenceFilter_enabled applyConfidenceFilter_disabled)

lemma applyConfidenceFilter_remaining_ok:
  "conf_enabled (confidence pol) \<Longrightarrow>
   f \<in> set (fst (applyConfidenceFilterToFindings fs pol)) \<Longrightarrow>
   \<not> scoreBelow (minimum (confidence pol)) (f_confidence f)"
  by (simp add: applyConfidenceFilter_enabled)

section \<open>The exclusion list and the latch\<close>

text \<open>
  Claim C4. With cross-file dedup disabled the exclusion list is the content of the
  file's previous comments and the latch is returned as it came. With it enabled, the
  returned latch is set exactly when the latch was set already or the number of run
  comments that pass the confidence filter exceeds the threshold; the list is the content
  of the previous comments followed by all run comments when the returned latch is set,
  and of the previous comments alone otherwise. In both cases a latch that comes in set
  goes out set. The run comments that pass the confidence filter are all of them when the
  confidence policy is disabled, and otherwise those without a score below the minimum.
\<close>

theorem getCommentContentForExclusion_latch:
  "(\<not> dedupe_enabled (dedupeAcrossFiles pol) \<longrightarrow>
      getCommentContentForExclusion fileComments run pol met
        = (map rc_content fileComments, met))
   \<and> (dedupe_enabled (dedupeAcrossFiles pol) \<longrightarrow>
        snd (getCommentContentForExclusion fileComments run pol met)
          = (met \<or> lt (threshold (dedupeAcrossFiles pol))
                       (Finite (real (length (snd (filterCommentsByPolicy run pol))))))
        \<and> fst (getCommentContentForExclusion fileComments run pol met)
          = (if snd (getCommentContentForExclusion fileComments run pol met)
             then map rc_content fileComments @ map rc_content run
             else map rc_content fileComments))
   \<and> (met \<longrightarrow> snd (getCommentContentForExclusion fileComments run pol met))
   \<and> snd (filterCommentsByPolicy run pol)
       = (if conf_enabled (confidence pol)
          then filter (\<lambda>c. \<not> scoreBelow (minimum (confidence pol)) (confidenceScore c)) run
          else run)"
  by (auto simp: getCommentContentForExclusion_def Let_def filterCommentsByPolicy_remaining)

text \<open>
  The theorem at the inputs of the repository's own test: two run comments that both pass
  the minimum 0.6 exceed the threshold 1, so a latch that was not set becomes set and the
  list has the content of all four comments.
\<close>

theorem getCommentContentForExclusion_latch_witness:
  "dedupe_enabled (dedupeAcrossFiles examplePolicy)
   \<and> lt (threshold (dedupeAcrossFiles examplePolicy))
        (Finite (real (length (snd (filterCommentsByPolicy
           [exampleComment ''C'' (Some (decimal 7 1)), exampleComment ''D'' (Some (decimal 8 1))]
           examplePolicy)))))
   \<and> getCommentContentForExclusion
        [exampleComment ''A'' (Some (decimal 9 1)), exampleComment ''B'' (Some (decimal 5 1))]
        [exampleComment ''C'' (Some (decimal 7 1)), exampleComment ''D'' (Some (decimal 8 1))]
        examplePolicy False
       = ([''A'', ''B'', ''C'', ''D''], True)"
proof -
  let ?file = "[exampleComment ''A'' (Some (decimal 9 1)), exampleComment ''B'' (Some (decimal 5 1))]"
  let ?run = "[exampleComment ''C'' (Some (decimal 7 1)), exampleComment ''D'' (Some (decimal 8 1))]"
  have h1: "dedupe_enabled (dedupeAcrossFiles examplePolicy)"
    by (simp add: examplePolicy_def)
  have h2: "lt (threshold (dedupeAcrossFiles examplePolicy))
      (Finite (real (length (snd (filterCommentsByPolicy ?run examplePolicy)))))"
    by (simp add: filterCommentsByPolicy_remaining scoreBelow_def examplePolicy_def
        exampleComment_def decimal_values)
  note t = getCommentContentForExclusion_latch [of examplePolicy ?file ?run False]
  from t h1 h2 have latch: "snd (getCommentContentForExclusion ?file ?run examplePolicy False)"
    by blast
  with t h1 have "fst (getCommentContentForExclusion ?file ?run examplePolicy False)
      = map rc_content ?file @ map rc_content ?run"
    by simp
  with latch have "getCommentContentForExclusion ?file ?run examplePolicy False
      = (map rc_content ?file @ map rc_content ?run, True)"
    by (simp add: prod_eq_iff)
  then have r: "getCommentContentForExclusion ?file ?run examplePolicy False
      = ([''A'', ''B'', ''C'', ''D''], True)"
    by (simp add: exampleComment_def)
  show ?thesis using h1 h2 r by (intro conjI) assumption+
qed

section \<open>The final dedup\<close>

lemma findingSignature_no_id:
  "f_id f = [] \<Longrightarrow> findingSignature sha f = contentSignature sha f"
  by (simp add: findingSignature_def contentSignature_def)

lemma contentSignature_id_update [simp]:
  "contentSignature sha (f\<lparr>f_id := i\<rparr>) = contentSignature sha f"
  by (simp add: contentSignature_def)

lemma dedupeLoop_append:
  "dedupeLoop sha P (xs @ ys) acc = dedupeLoop sha P ys (dedupeLoop sha P xs acc)"
proof (induction xs arbitrary: acc)
  case Nil
  show ?case by simp
next
  case (Cons x xs)
  obtain d r s where acc: "acc = (d, r, s)" by (cases acc) auto
  show ?case unfolding acc by (simp add: Cons.IH Let_def)
qed

lemma dedupeLoop_result:
  assumes "\<forall>g\<in>set xs. f_id g = []"
  shows "\<exists>d' r'. dedupeLoop sha P xs (d0, r0, s0) = (d0 @ d', r0 @ r', s0 \<union> f_id ` set d')
    \<and> f_id ` set d' \<inter> (s0 \<union> P) = {}
    \<and> distinct (map f_id d')
    \<and> s0 \<union> P \<union> f_id ` set d' = s0 \<union> P \<union> contentSignature sha ` set xs
    \<and> (\<forall>g\<in>set d'. f_id g = contentSignature sha g \<and> withoutId g \<in> set xs)
    \<and> set r' \<subseteq> set xs
    \<and> mset (map withoutId d') + mset r' = mset xs"
  using assms
proof (induction xs arbitrary: d0 r0 s0)
  case Nil
  show ?case by simp
next
  case (Cons x xs)
  let ?sig = "contentSignature sha x"
  have idx: "f_id x = []" and ids: "\<forall>g\<in>set xs. f_id g = []" using Cons.prems by auto
  have sg: "findingSignature sha x = ?sig" using idx by (rule findingSignature_no_id)
  have wx: "withoutId (x\<lparr>f_id := ?sig\<rparr>) = x" using idx by (simp add: withoutId_def)
  show ?case
  proof (cases "?sig \<in> s0 \<or> ?sig \<in> P")
    case True
    from Cons.IH [OF ids, of d0 "r0 @ [x]" s0] show ?thesis
    proof (elim exE conjE)
      fix d' r'
      assume h:
        "dedupeLoop sha P xs (d0, r0 @ [x], s0)
           = (d0 @ d', (r0 @ [x]) @ r', s0 \<union> f_id ` set d')"
        "f_id ` set d' \<inter> (s0 \<union> P) = {}" "distinct (map f_id d')"
        "s0 \<union> P \<union> f_id ` set d' = s0 \<union> P \<union> contentSignature sha ` set xs"
        "\<forall>g\<in>set d'. f_id g = contentSignature sha g \<and> withoutId g \<in> set xs"
        "set r' \<subseteq> set xs" "mset (map withoutId d') + mset r' = mset xs"
      have 1: "dedupeLoop sha P (x # xs) (d0, r0, s0)
          = (d0 @ d', r0 @ (x # r'), s0 \<union> f_id ` set d')"
        using True h(1) sg by (simp add: Let_def)
      have "contentSignature sha ` set (x # xs)
          = insert ?sig (contentSignature sha ` set xs)" by simp
      moreover have "s0 \<union> P \<union> insert ?sig (contentSignature sha ` set xs)
          = s0 \<union> P \<union> contentSignature sha ` set xs"
        using True by blast
      ultimately have 2: "s0 \<union> P \<union> f_id ` set d'
          = s0 \<union> P \<union> contentSignature sha ` set (x # xs)"
        using h(4) by simp
      have 3: "\<forall>g\<in>set d'. f_id g = contentSignature sha g \<and> withoutId g \<in> set (x # xs)"
        using h(5) by simp
      have 4: "set (x # r') \<subseteq> set (x # xs)" using h(6) by auto
      have 5: "mset (map withoutId d') + mset (x # r') = mset (x # xs)" using h(7) by simp
      show ?thesis
        apply (rule exI [where x = d'], rule exI [where x = "x # r'"])
        apply (intro conjI)
              apply (rule 1)
             apply (rule h(2))
            apply (rule h(3))
           apply (rule 2)
          apply (rule 3)
         apply (rule 4)
        apply (rule 5)
        done
    qed
  next
    case False
    let ?x' = "x\<lparr>f_id := ?sig\<rparr>"
    have fx': "f_id ?x' = ?sig" by simp
    from Cons.IH [OF ids, of "d0 @ [?x']" r0 "insert ?sig s0"] show ?thesis
    proof (elim exE conjE)
      fix d' r'
      assume h:
        "dedupeLoop sha P xs (d0 @ [?x'], r0, insert ?sig s0)
           = ((d0 @ [?x']) @ d', r0 @ r', insert ?sig s0 \<union> f_id ` set d')"
        "f_id ` set d' \<inter> (insert ?sig s0 \<union> P) = {}" "distinct (map f_id d')"
        "insert ?sig s0 \<union> P \<union> f_id ` set d'
           = insert ?sig s0 \<union> P \<union> contentSignature sha ` set xs"
        "\<forall>g\<in>set d'. f_id g = contentSignature sha g \<and> withoutId g \<in> set xs"
        "set r' \<subseteq> set xs" "mset (map withoutId d') + mset r' = mset xs"
      have img: "f_id ` set (?x' # d') = insert ?sig (f_id ` set d')"
        using fx' by simp
      have 1: "dedupeLoop sha P (x # xs) (d0, r0, s0)
          = (d0 @ (?x' # d'), r0 @ r', s0 \<union> f_id ` set (?x' # d'))"
        unfolding img using False h(1) sg by (simp add: Let_def)
      have notin: "?sig \<notin> f_id ` set d'" using h(2) by blast
      have 2: "f_id ` set (?x' # d') \<inter> (s0 \<union> P) = {}"
        unfolding img using False h(2) by blast
      have 3: "distinct (map f_id (?x' # d'))"
        using notin h(3) by simp
      have 4: "s0 \<union> P \<union> f_id ` set (?x' # d')
          = s0 \<union> P \<union> contentSignature sha ` set (x # xs)"
        unfolding img using h(4) by auto
      have 5: "\<forall>g\<in>set (?x' # d').
          f_id g = contentSignature sha g \<and> withoutId g \<in> set (x # xs)"
        using h(5) wx by simp
      have 6: "set r' \<subseteq> set (x # xs)" using h(6) by auto
      have 7: "mset (map withoutId (?x' # d')) + mset r' = mset (x # xs)"
        using h(7) wx by simp
      show ?thesis
        apply (rule exI [where x = "?x' # d'"], rule exI [where x = r'])
        apply (intro conjI)
              apply (rule 1)
             apply (rule 2)
            apply (rule 3)
           apply (rule 4)
          apply (rule 5)
         apply (rule 6)
        apply (rule 7)
        done
    qed
  qed
qed

lemma commentToFinding_no_id [simp]: "f_id (commentToFinding thread filePath c) = []"
  by (simp add: commentToFinding_def)

lemma threadFindingsOf_no_id: "g \<in> set (threadFindingsOf ts file) \<Longrightarrow> f_id g = []"
  by (auto simp: threadFindingsOf_def threadToFindings_def)

lemma confidenceRemaining_no_id:
  "g \<in> set (fst (applyConfidenceFilterToFindings (threadFindingsOf ts file) pol))
   \<Longrightarrow> f_id g = []"
  using applyConfidenceFilter_subset threadFindingsOf_no_id by blast

text \<open>
  Claim C3. The findings that reach the final dedup have no id, and the signature of such
  a finding is the digest of its file path, a bar and its trimmed content. Let the
  findings \<open>xs\<close> be processed before the finding \<open>f\<close>. After \<open>xs\<close> the run-level set is the set
  the caller passed in plus the ids of the findings kept so far; together with the
  signatures of the previous comments it holds the signature of every finding of \<open>xs\<close>.
  Then \<open>f\<close> is moved to the removed ones if and only if its signature is in the set of the
  previous comments or in the run-level set; otherwise it is kept with its signature as
  id and the signature joins the run-level set. The ids of the kept findings are their
  signatures and are pairwise distinct: of several findings with one signature only the
  first can be kept.
\<close>

theorem dedupeAgainstPrevious_first_wins:
  assumes "\<forall>g\<in>set (xs @ [f]). f_id g = []"
  shows "\<exists>d r s. dedupeAgainstPrevious sha xs prev seen = (d, r, s)
     \<and> s = seen \<union> f_id ` set d
     \<and> s \<union> previousSignaturesOf sha prev
         = seen \<union> previousSignaturesOf sha prev \<union> contentSignature sha ` set xs
     \<and> distinct (map f_id d)
     \<and> (\<forall>g\<in>set d. f_id g = contentSignature sha g)
     \<and> contentSignature sha f = sha (f_filePath f @ ''|'' @ trim (f_content f))
     \<and> dedupeAgainstPrevious sha (xs @ [f]) prev seen =
          (if contentSignature sha f \<in> previousSignaturesOf sha prev \<or> contentSignature sha f \<in> s
           then (d, r @ [f], s)
           else (d @ [f\<lparr>f_id := contentSignature sha f\<rparr>], r,
                 insert (contentSignature sha f) s))
     \<and> (\<forall>g\<in>set (fst (applyConfidenceFilterToFindings (threadFindingsOf ts fl) pol)).
           f_id g = [])"
proof -
  let ?P = "previousSignaturesOf sha prev"
  have ids: "\<forall>g\<in>set xs. f_id g = []" and idf: "f_id f = []" using assms by auto
  have 6: "\<forall>g\<in>set (fst (applyConfidenceFilterToFindings (threadFindingsOf ts fl) pol)).
      f_id g = []"
    using confidenceRemaining_no_id by blast
  from dedupeLoop_result [OF ids, of sha ?P "[]" "[]" seen] show ?thesis
  proof (elim exE conjE)
    fix d r
    assume h: "dedupeLoop sha ?P xs ([], [], seen) = ([] @ d, [] @ r, seen \<union> f_id ` set d)"
      "f_id ` set d \<inter> (seen \<union> ?P) = {}"
      "distinct (map f_id d)"
      "seen \<union> ?P \<union> f_id ` set d = seen \<union> ?P \<union> contentSignature sha ` set xs"
      "\<forall>g\<in>set d. f_id g = contentSignature sha g \<and> withoutId g \<in> set xs"
    let ?s = "seen \<union> f_id ` set d"
    have loop: "dedupeLoop sha ?P xs ([], [], seen) = (d, r, ?s)"
      using h(1) by simp
    have 1: "dedupeAgainstPrevious sha xs prev seen = (d, r, ?s)"
      using loop by (simp add: dedupeAgainstPrevious_def)
    have "?s \<union> ?P = seen \<union> ?P \<union> f_id ` set d" by blast
    then have 2: "?s \<union> ?P = seen \<union> ?P \<union> contentSignature sha ` set xs"
      using h(4) by simp
    have 3: "\<forall>g\<in>set d. f_id g = contentSignature sha g" using h(5) by blast
    have 4: "contentSignature sha f = sha (f_filePath f @ ''|'' @ trim (f_content f))"
      by (simp add: contentSignature_def buildFindingSignature_def)
    have 5: "dedupeAgainstPrevious sha (xs @ [f]) prev seen =
          (if contentSignature sha f \<in> ?P \<or> contentSignature sha f \<in> ?s
           then (d, r @ [f], ?s)
           else (d @ [f\<lparr>f_id := contentSignature sha f\<rparr>], r,
                 insert (contentSignature sha f) ?s))"
      unfolding dedupeAgainstPrevious_def dedupeLoop_append loop
      using findingSignature_no_id [OF idf, of sha] by (simp add: Let_def disj_commute)
    show ?thesis
      apply (rule exI [where x = d], rule exI [where x = r], rule exI [where x = ?s])
      apply (intro conjI)
            apply (rule 1)
           apply (rule refl)
          apply (rule 2)
         apply (rule h(3))
        apply (rule 3)
        apply (rule 4)
       apply (rule 5)
      apply (rule 6)
      done
  qed
qed

text \<open>
  The theorem at three findings of one file with a plain digest: the second has the
  content of the first with blanks around it and is removed, the third has the content
  of a previous comment and is removed too; the first is kept with its signature as id.
\<close>

theorem dedupeAgainstPrevious_first_wins_witness:
  "list_all (\<lambda>g. f_id g = [])
     ([exampleFinding ''/a'' ''x'' None, exampleFinding ''/a'' '' x '' None]
        @ [exampleFinding ''/a'' ''y'' None])
   \<and> dedupeAgainstPrevious plainDigest
        ([exampleFinding ''/a'' ''x'' None, exampleFinding ''/a'' '' x '' None]
           @ [exampleFinding ''/a'' ''y'' None])
        (Some [examplePrevious ''/a'' ''y'']) {}
       = ([(exampleFinding ''/a'' ''x'' None)\<lparr>f_id := ''/a|x''\<rparr>],
          [exampleFinding ''/a'' '' x '' None, exampleFinding ''/a'' ''y'' None],
          {''/a|x''})"
proof -
  let ?xs = "[exampleFinding ''/a'' ''x'' None, exampleFinding ''/a'' '' x '' None]"
  let ?f = "exampleFinding ''/a'' ''y'' None"
  let ?prev = "Some [examplePrevious ''/a'' ''y'']"
  have h: "list_all (\<lambda>g. f_id g = []) (?xs @ [?f])"
    by (simp add: exampleFinding_def)
  then have h': "\<forall>g\<in>set (?xs @ [?f]). f_id g = []"
    unfolding list_all_iff .
  have first: "dedupeAgainstPrevious plainDigest ?xs ?prev {}
      = ([(exampleFinding ''/a'' ''x'' None)\<lparr>f_id := ''/a|x''\<rparr>],
         [exampleFinding ''/a'' '' x '' None], {''/a|x''})"
    by (simp add: dedupeAgainstPrevious_def previousSignaturesOf_def findingSignature_def
        buildFindingSignature_def trim_def isWhiteSpace_def plainDigest_def
        exampleFinding_def examplePrevious_def Let_def)
  have inP: "contentSignature plainDigest ?f \<in> previousSignaturesOf plainDigest ?prev"
    by (simp add: contentSignature_def previousSignaturesOf_def buildFindingSignature_def
        trim_def isWhiteSpace_def plainDigest_def exampleFinding_def examplePrevious_def)
  from dedupeAgainstPrevious_first_wins [OF h', of plainDigest ?prev "{}" "[]" testFile
      examplePolicy]
  obtain d r s where t: "dedupeAgainstPrevious plainDigest ?xs ?prev {} = (d, r, s)"
    "dedupeAgainstPrevious plainDigest (?xs @ [?f]) ?prev {} =
          (if contentSignature plainDigest ?f \<in> previousSignaturesOf plainDigest ?prev
              \<or> contentSignature plainDigest ?f \<in> s
           then (d, r @ [?f], s)
           else (d @ [?f\<lparr>f_id := contentSignature plainDigest ?f\<rparr>], r,
                 insert (contentSignature plainDigest ?f) s))"
    by (elim exE conjE) (rule that)
  from t(1) first have "d = [(exampleFinding ''/a'' ''x'' None)\<lparr>f_id := ''/a|x''\<rparr>]"
    "r = [exampleFinding ''/a'' '' x '' None]" "s = {''/a|x''}"
    by simp_all
  with t(2) inP have r: "dedupeAgainstPrevious plainDigest (?xs @ [?f]) ?prev {}
       = ([(exampleFinding ''/a'' ''x'' None)\<lparr>f_id := ''/a|x''\<rparr>],
          [exampleFinding ''/a'' '' x '' None, exampleFinding ''/a'' ''y'' None],
          {''/a|x''})"
    by simp
  show ?thesis using h r by (intro conjI) assumption+
qed

section \<open>The review capability: malformed output and confidence scores\<close>

lemma slice_from_0: "slice s 0 n = take n s"
  by (simp add: slice_def)

lemma diagnosticThread_shape:
  "\<exists>t c. threads (diagnosticThread fp issue text) = Some [t] \<and> comments t = [c]
     \<and> rc_content c = text \<and> confidenceScore c = Some (Finite 1) \<and> issueType c = Some issue"
  by (simp add: diagnosticThread_def Let_def)

lemma invalid_shapes:
  assumes "raw_threads parsed = None
     \<or> (\<exists>ts. raw_threads parsed = Some ts
          \<and> (None \<in> set ts
              \<or> (\<exists>t :: RawThread. Some t \<in> set ts
                    \<and> (raw_threadContext t = None \<or> raw_comments t = None))))"
  shows "\<not> isValidResponse parsed"
  using assms
proof
  assume "raw_threads parsed = None"
  then show ?thesis by (simp add: isValidResponse_def)
next
  assume "\<exists>ts. raw_threads parsed = Some ts
          \<and> (None \<in> set ts
              \<or> (\<exists>t :: RawThread. Some t \<in> set ts
                    \<and> (raw_threadContext t = None \<or> raw_comments t = None)))"
  then obtain ts where ts: "raw_threads parsed = Some ts"
    and bad: "None \<in> set ts
      \<or> (\<exists>t :: RawThread. Some t \<in> set ts \<and> (raw_threadContext t = None \<or> raw_comments t = None))"
    by blast
  from bad have "\<exists>v\<in>set ts. \<not> isValidReviewThread v"
  proof
    assume "None \<in> set ts"
    moreover have "\<not> isValidReviewThread None" by (simp add: isValidReviewThread_def)
    ultimately show ?thesis by blast
  next
    assume "\<exists>t. Some t \<in> set ts \<and> (raw_threadContext t = None \<or> raw_comments t = None)"
    then obtain t where t: "Some t \<in> set ts"
      "raw_threadContext t = None \<or> raw_comments t = None" by blast
    from t(2) have "\<not> isValidReviewThread (Some t)"
      by (auto simp: isValidReviewThread_def)
    with t(1) show ?thesis by blast
  qed
  with ts show ?thesis by (simp add: isValidResponse_def list_all_iff)
qed

text \<open>
  Claim C5, as amended. When no JSON object is found in the output, and when the
  extracted text does not parse, the result is the diagnostic thread whose comment is the
  failure reason followed by the first 800 characters of the output. When the parsed value
  is not a valid response, which is the case when it has no array of threads or a thread
  of it is falsy or lacks a thread context or an array of comments, the result is the
  diagnostic thread whose comment is the fixed reason
  \<^verbatim>\<open>LLM_OUTPUT_INVALID_SHAPE: missing threads[]\<close>, with nothing of the output in it. A
  diagnostic thread is one thread with one comment of confidence 1 and of the issue type
  given, \<^verbatim>\<open>BUG\<close> in all three cases.
\<close>

theorem llmReviewCode_diagnostics:
  "(tryExtractJsonObject choice = None \<longrightarrow>
      llmReviewCode jsonParse stringToNumber False fp choice
        = diagnosticThread fp ''BUG'' (noJsonMessage @ take 800 choice))
   \<and> (\<forall>j. tryExtractJsonObject choice = Some j \<and> jsonParse j = None \<longrightarrow>
         llmReviewCode jsonParse stringToNumber False fp choice
           = diagnosticThread fp ''BUG'' (parseFailedMessage @ take 800 choice))
   \<and> (\<forall>j (parsed :: RawResponse). tryExtractJsonObject choice = Some j \<and> jsonParse j = Some parsed
         \<and> \<not> isValidResponse parsed \<longrightarrow>
         llmReviewCode jsonParse stringToNumber False fp choice
           = diagnosticThread fp ''BUG'' invalidShapeMessage)
   \<and> (\<forall>parsed :: RawResponse. raw_threads parsed = None
         \<or> (\<exists>ts. raw_threads parsed = Some ts
              \<and> (None \<in> set ts
                  \<or> (\<exists>t :: RawThread. Some t \<in> set ts
                        \<and> (raw_threadContext t = None \<or> raw_comments t = None))))
         \<longrightarrow> \<not> isValidResponse parsed)
   \<and> (\<exists>t c. threads (diagnosticThread fp issue text) = Some [t] \<and> comments t = [c]
         \<and> rc_content c = text \<and> confidenceScore c = Some (Finite 1) \<and> issueType c = Some issue)"
proof (intro conjI allI impI)
  assume "tryExtractJsonObject choice = None"
  then show "llmReviewCode jsonParse stringToNumber False fp choice
        = diagnosticThread fp ''BUG'' (noJsonMessage @ take 800 choice)"
    by (simp add: llmReviewCode_def slice_from_0)
next
  fix j assume "tryExtractJsonObject choice = Some j \<and> jsonParse j = None"
  then show "llmReviewCode jsonParse stringToNumber False fp choice
           = diagnosticThread fp ''BUG'' (parseFailedMessage @ take 800 choice)"
    by (simp add: llmReviewCode_def slice_from_0)
next
  fix j and parsed :: RawResponse
  assume "tryExtractJsonObject choice = Some j \<and> jsonParse j = Some parsed
         \<and> \<not> isValidResponse parsed"
  then show "llmReviewCode jsonParse stringToNumber False fp choice
           = diagnosticThread fp ''BUG'' invalidShapeMessage"
    by (simp add: llmReviewCode_def)
next
  fix parsed :: RawResponse
  assume "raw_threads parsed = None
         \<or> (\<exists>ts. raw_threads parsed = Some ts
              \<and> (None \<in> set ts
                  \<or> (\<exists>t :: RawThread. Some t \<in> set ts
                        \<and> (raw_threadContext t = None \<or> raw_comments t = None))))"
  then show "\<not> isValidResponse parsed" by (rule invalid_shapes)
next
  show "\<exists>t c. threads (diagnosticThread fp issue text) = Some [t] \<and> comments t = [c]
         \<and> rc_content c = text \<and> confidenceScore c = Some (Finite 1) \<and> issueType c = Some issue"
    by (rule diagnosticThread_shape)
qed

text \<open>
  The theorem at three outputs: one without braces, one whose braces hold no JSON, and
  the empty object, which parses and has no threads.
\<close>

theorem llmReviewCode_diagnostics_witness:
  "tryExtractJsonObject ''no json'' = None
   \<and> llmReviewCode emptyObjectParse readsNoNumber False ''/a.ts'' ''no json''
       = diagnosticThread ''/a.ts'' ''BUG'' (noJsonMessage @ ''no json'')
   \<and> tryExtractJsonObject ''see {oops} here'' = Some ''{oops}''
   \<and> emptyObjectParse ''{oops}'' = None
   \<and> llmReviewCode emptyObjectParse readsNoNumber False ''/a.ts'' ''see {oops} here''
       = diagnosticThread ''/a.ts'' ''BUG'' (parseFailedMessage @ ''see {oops} here'')
   \<and> tryExtractJsonObject ''{}'' = Some ''{}''
   \<and> emptyObjectParse ''{}'' = Some \<lparr>raw_threads = None\<rparr>
   \<and> \<not> isValidResponse \<lparr>raw_threads = None\<rparr>
   \<and> llmReviewCode emptyObjectParse readsNoNumber False ''/a.ts'' ''{}''
       = diagnosticThread ''/a.ts'' ''BUG'' invalidShapeMessage"
proof -
  have e1: "tryExtractJsonObject ''no json'' = None"
    by (simp add: tryExtractJsonObject_def indexOf_def lastIndexOf_def Let_def)
  have e2: "tryExtractJsonObject ''see {oops} here'' = Some ''{oops}''"
    by (simp add: tryExtractJsonObject_def indexOf_def lastIndexOf_def slice_def Let_def)
  have p2: "emptyObjectParse ''{oops}'' = None"
    by (simp add: emptyObjectParse_def)
  have e3: "tryExtractJsonObject ''{}'' = Some ''{}''"
    by (simp add: tryExtractJsonObject_def indexOf_def lastIndexOf_def slice_def Let_def)
  have p3: "emptyObjectParse ''{}'' = Some \<lparr>raw_threads = None\<rparr>"
    by (simp add: emptyObjectParse_def)
  have v3: "\<not> isValidResponse \<lparr>raw_threads = None\<rparr>"
    by (simp add: isValidResponse_def)
  note t1 = llmReviewCode_diagnostics [where choice = "''no json''" and jsonParse = emptyObjectParse
      and stringToNumber = readsNoNumber and fp = "''/a.ts''"]
  note t2 = llmReviewCode_diagnostics [where choice = "''see {oops} here''"
      and jsonParse = emptyObjectParse and stringToNumber = readsNoNumber and fp = "''/a.ts''"]
  note t3 = llmReviewCode_diagnostics [where choice = "''{}''" and jsonParse = emptyObjectParse
      and stringToNumber = readsNoNumber and fp = "''/a.ts''"]
  from t1 e1 have "llmReviewCode emptyObjectParse readsNoNumber False ''/a.ts'' ''no json''
       = diagnosticThread ''/a.ts'' ''BUG'' (noJsonMessage @ take 800 ''no json'')"
    by blast
  then have r1: "llmReviewCode emptyObjectParse readsNoNumber False ''/a.ts'' ''no json''
       = diagnosticThread ''/a.ts'' ''BUG'' (noJsonMessage @ ''no json'')"
    by simp
  from t2 e2 p2 have "llmReviewCode emptyObjectParse readsNoNumber False ''/a.ts'' ''see {oops} here''
       = diagnosticThread ''/a.ts'' ''BUG'' (parseFailedMessage @ take 800 ''see {oops} here'')"
    by blast
  then have r2: "llmReviewCode emptyObjectParse readsNoNumber False ''/a.ts'' ''see {oops} here''
       = diagnosticThread ''/a.ts'' ''BUG'' (parseFailedMessage @ ''see {oops} here'')"
    by simp
  from t3 e3 p3 v3 have r3: "llmReviewCode emptyObjectParse readsNoNumber False ''/a.ts'' ''{}''
       = diagnosticThread ''/a.ts'' ''BUG'' invalidShapeMessage"
    by blast
  show ?thesis using e1 r1 e2 p2 r2 e3 p3 v3 r3 by (intro conjI) assumption+
qed

text \<open>
  Claim C5 as it is stated fails for an output that parses and has no threads: for the
  output \<^verbatim>\<open>{}\<close> the comment of the diagnostic thread is the fixed reason and contains
  nothing of the output.
\<close>

theorem llmReviewCode_invalid_shape_counterexample:
  "tryExtractJsonObject ''{}'' = Some ''{}''
   \<and> emptyObjectParse ''{}'' = Some \<lparr>raw_threads = None\<rparr>
   \<and> \<not> isValidResponse \<lparr>raw_threads = None\<rparr>
   \<and> map (map rc_content \<circ> comments)
        (case threads (llmReviewCode emptyObjectParse readsNoNumber False ''/a.ts'' ''{}'') of
           None \<Rightarrow> [] | Some ts \<Rightarrow> ts)
       = [[''LLM_OUTPUT_INVALID_SHAPE: missing threads[]'']]
   \<and> \<not> str_includes ''LLM_OUTPUT_INVALID_SHAPE: missing threads[]'' (slice ''{}'' 0 800)"
  by (simp add: tryExtractJsonObject_def indexOf_def lastIndexOf_def slice_def Let_def
      emptyObjectParse_def isValidResponse_def llmReviewCode_def diagnosticThread_def
      invalidShapeMessage_def str_includes_def)


lemma div10_NaN [simp]: "div10 n = NaN \<longleftrightarrow> n = NaN"
  by (cases n) simp_all

lemma clamp_NaN [simp]: "mathMax (Finite 0) (mathMin (Finite 1) n) = NaN \<longleftrightarrow> n = NaN"
  by (cases n) (auto simp: mathMin_def mathMax_def)








section \<open>One file of a run\<close>

lemmas engine_defs =
  reviewCode_def reviewFile_def sanitizedThreadsOf_def threadFindingsOf_def
  previousFileComments_def getCommentContentForExclusion_def buildLlmRequest_def
  fixThreadPositions_def fixThread_def fixThreadContextLineNumberAndOffsets_def
  sideStart_def sideEnd_def hasSnippet_def threadToFindings_def commentToFinding_def
  deriveLineRange_def optLine_def deriveSeverity_def toUpperCase_def
  applyConfidenceFilterToFindings_def dedupeAgainstPrevious_def previousSignaturesOf_def
  findingSignature_def buildFindingSignature_def trim_def isWhiteSpace_def
  normalizePath_def startsWith_def initialState_def stripSourceThreads_def
  summarize_def computeSummary_def showNat.simps digitChar_def Let_def

lemmas example_defs =
  stubLlm_def stubThread_def noFilesParse_def testPolicy_def testFile_def testInput_def
  freshInput_def noFilesInput_def bareInput_def exampleComment_def examplePrevious_def
  plainDigest_def decimal_values

lemma dedupeAgainstPrevious_result:
  assumes ids: "\<forall>g\<in>set xs. f_id g = []"
    and res: "dedupeAgainstPrevious sha xs prev seen = (d, r, s)"
  shows "s = seen \<union> f_id ` set d"
    and "f_id ` set d \<inter> (seen \<union> previousSignaturesOf sha prev) = {}"
    and "distinct (map f_id d)"
    and "seen \<union> previousSignaturesOf sha prev \<union> f_id ` set d
          = seen \<union> previousSignaturesOf sha prev \<union> contentSignature sha ` set xs"
    and "\<forall>g\<in>set d. f_id g = contentSignature sha g \<and> withoutId g \<in> set xs"
    and "set r \<subseteq> set xs"
    and "mset (map withoutId d) + mset r = mset xs"
proof -
  let ?P = "previousSignaturesOf sha prev"
  from dedupeLoop_result [OF ids, of sha ?P "[]" "[]" seen]
  have "s = seen \<union> f_id ` set d
    \<and> f_id ` set d \<inter> (seen \<union> ?P) = {}
    \<and> distinct (map f_id d)
    \<and> seen \<union> ?P \<union> f_id ` set d = seen \<union> ?P \<union> contentSignature sha ` set xs
    \<and> (\<forall>g\<in>set d. f_id g = contentSignature sha g \<and> withoutId g \<in> set xs)
    \<and> set r \<subseteq> set xs
    \<and> mset (map withoutId d) + mset r = mset xs"
  proof (elim exE conjE)
    fix d' r'
    assume h: "dedupeLoop sha ?P xs ([], [], seen) = ([] @ d', [] @ r', seen \<union> f_id ` set d')"
      "f_id ` set d' \<inter> (seen \<union> ?P) = {}"
      "distinct (map f_id d')"
      "seen \<union> ?P \<union> f_id ` set d' = seen \<union> ?P \<union> contentSignature sha ` set xs"
      "\<forall>g\<in>set d'. f_id g = contentSignature sha g \<and> withoutId g \<in> set xs"
      "set r' \<subseteq> set xs"
      "mset (map withoutId d') + mset r' = mset xs"
    have "dedupeLoop sha ?P xs ([], [], seen) = (d', r', seen \<union> f_id ` set d')"
      using h(1) by simp
    with res have "(d, r, s) = (d', r', seen \<union> f_id ` set d')"
      unfolding dedupeAgainstPrevious_def by (rule trans [OF sym])
    then have "d = d' \<and> r = r' \<and> s = seen \<union> f_id ` set d'"
      by (simp only: prod.inject)
    then have eq: "d = d'" "r = r'" "s = seen \<union> f_id ` set d'"
      by blast+
    show ?thesis unfolding eq using h(2-7) by (intro conjI refl) assumption+
  qed
  then have c: "s = seen \<union> f_id ` set d
    \<and> f_id ` set d \<inter> (seen \<union> ?P) = {}
    \<and> distinct (map f_id d)
    \<and> seen \<union> ?P \<union> f_id ` set d = seen \<union> ?P \<union> contentSignature sha ` set xs
    \<and> (\<forall>g\<in>set d. f_id g = contentSignature sha g \<and> withoutId g \<in> set xs)
    \<and> set r \<subseteq> set xs
    \<and> mset (map withoutId d) + mset r = mset xs" .
  note c2 = c [THEN conjunct2]
  note c3 = c2 [THEN conjunct2]
  note c4 = c3 [THEN conjunct2]
  note c5 = c4 [THEN conjunct2]
  note c6 = c5 [THEN conjunct2]
  show "s = seen \<union> f_id ` set d" by (rule c [THEN conjunct1])
  show "f_id ` set d \<inter> (seen \<union> previousSignaturesOf sha prev) = {}"
    by (rule c2 [THEN conjunct1])
  show "distinct (map f_id d)" by (rule c3 [THEN conjunct1])
  show "seen \<union> previousSignaturesOf sha prev \<union> f_id ` set d
          = seen \<union> previousSignaturesOf sha prev \<union> contentSignature sha ` set xs"
    by (rule c4 [THEN conjunct1])
  show "\<forall>g\<in>set d. f_id g = contentSignature sha g \<and> withoutId g \<in> set xs"
    by (rule c5 [THEN conjunct1])
  show "set r \<subseteq> set xs" by (rule c6 [THEN conjunct1])
  show "mset (map withoutId d) + mset r = mset xs" by (rule c6 [THEN conjunct2])
qed

lemma reviewFile_InrE:
  assumes "reviewFile llm sha parse input st file = Inr st'"
  obtains nd ts d r s where
    "sanitizedThreadsOf llm parse input st file = Inr (nd, ts)"
    "dedupeAgainstPrevious sha
       (fst (applyConfidenceFilterToFindings (threadFindingsOf ts file) (policy input)))
       (previousComments input) (seenSignatures st) = (d, r, s)"
    "st' = \<lparr>rs_filteredOut = rs_filteredOut st
               @ snd (applyConfidenceFilterToFindings (threadFindingsOf ts file) (policy input))
               @ r,
            rs_findings = rs_findings st @ d,
            runComments = runComments st @ concat (map comments ts),
            seenSignatures = s,
            dedupeCriteriaMet = nd\<rparr>"
proof -
  from assms obtain nd ts where a: "sanitizedThreadsOf llm parse input st file = Inr (nd, ts)"
    by (auto simp: reviewFile_def split: sum.splits)
  obtain d r s where c: "dedupeAgainstPrevious sha
       (fst (applyConfidenceFilterToFindings (threadFindingsOf ts file) (policy input)))
       (previousComments input) (seenSignatures st) = (d, r, s)"
    by (rule prod_cases3)
  from assms a c have "st' = \<lparr>rs_filteredOut = rs_filteredOut st
               @ snd (applyConfidenceFilterToFindings (threadFindingsOf ts file) (policy input))
               @ r,
            rs_findings = rs_findings st @ d,
            runComments = runComments st @ concat (map comments ts),
            seenSignatures = s,
            dedupeCriteriaMet = nd\<rparr>"
    by (simp add: reviewFile_def Let_def split: prod.splits)
  with a c show thesis by (rule that)
qed

lemma reviewFile_partition:
  assumes "reviewFile llm sha parse input st file = Inr st'"
    and "sanitizedThreadsOf llm parse input st file = Inr (nd, ts)"
  shows "mset (map withoutId (rs_findings st')) + mset (rs_filteredOut st')
     = mset (map withoutId (rs_findings st)) + mset (rs_filteredOut st)
       + mset (threadFindingsOf ts file)"
proof -
  let ?tf = "threadFindingsOf ts file"
  let ?rem = "fst (applyConfidenceFilterToFindings ?tf (policy input))"
  let ?filt = "snd (applyConfidenceFilterToFindings ?tf (policy input))"
  from assms(1) obtain nd' ts' d r s where
    a: "sanitizedThreadsOf llm parse input st file = Inr (nd', ts')" and
    c: "dedupeAgainstPrevious sha
       (fst (applyConfidenceFilterToFindings (threadFindingsOf ts' file) (policy input)))
       (previousComments input) (seenSignatures st) = (d, r, s)" and
    st': "st' = \<lparr>rs_filteredOut = rs_filteredOut st
               @ snd (applyConfidenceFilterToFindings (threadFindingsOf ts' file) (policy input))
               @ r,
            rs_findings = rs_findings st @ d,
            runComments = runComments st @ concat (map comments ts'),
            seenSignatures = s,
            dedupeCriteriaMet = nd'\<rparr>"
    by (rule reviewFile_InrE)
  from a assms(2) have ts: "ts' = ts" by simp
  have ids: "\<forall>g\<in>set ?rem. f_id g = []" using confidenceRemaining_no_id by blast
  have m1: "mset (map withoutId d) + mset r = mset ?rem"
    using dedupeAgainstPrevious_result(7) [OF ids c [unfolded ts]] .
  have m2: "mset ?rem + mset ?filt = mset ?tf" by (rule applyConfidenceFilter_mset)
  have "mset (map withoutId (rs_findings st')) + mset (rs_filteredOut st')
      = mset (map withoutId (rs_findings st)) + mset (rs_filteredOut st)
        + (mset (map withoutId d) + mset r + mset ?filt)"
    unfolding st' ts by simp
  also have "mset (map withoutId d) + mset r + mset ?filt = mset ?tf"
    using m1 m2 by simp
  finally show ?thesis .
qed

lemma reviewFiles_partition:
  "reviewFiles llm sha parse input st fs = Inr st' \<Longrightarrow>
   mset (map withoutId (rs_findings st')) + mset (rs_filteredOut st')
     = mset (map withoutId (rs_findings st)) + mset (rs_filteredOut st)
       + mset (generatedFindings llm sha parse input st fs)"
proof (induction fs arbitrary: st)
  case Nil
  then show ?case by simp
next
  case (Cons fl rest)
  from Cons.prems obtain st1 where
    s1: "reviewFile llm sha parse input st fl = Inr st1" and
    s2: "reviewFiles llm sha parse input st1 rest = Inr st'"
    by (auto split: sum.splits)
  from s1 obtain nd ts where a: "sanitizedThreadsOf llm parse input st fl = Inr (nd, ts)"
    by (auto simp: reviewFile_def split: sum.splits)
  have g: "generatedFindings llm sha parse input st (fl # rest)
      = threadFindingsOf ts fl @ generatedFindings llm sha parse input st1 rest"
    using a s1 by simp
  show ?case
    unfolding g using Cons.IH [OF s2] reviewFile_partition [OF s1 a] by simp
qed

lemma reviewFiles_filtered_no_id:
  "reviewFiles llm sha parse input st fs = Inr st' \<Longrightarrow>
   \<forall>g\<in>set (rs_filteredOut st). f_id g = [] \<Longrightarrow>
   \<forall>g\<in>set (rs_filteredOut st'). f_id g = []"
proof (induction fs arbitrary: st)
  case Nil
  then show ?case by simp
next
  case (Cons fl rest)
  from Cons.prems(1) obtain st1 where
    s1: "reviewFile llm sha parse input st fl = Inr st1" and
    s2: "reviewFiles llm sha parse input st1 rest = Inr st'"
    by (auto split: sum.splits)
  from s1 obtain nd ts d r s where
    c: "dedupeAgainstPrevious sha
       (fst (applyConfidenceFilterToFindings (threadFindingsOf ts fl) (policy input)))
       (previousComments input) (seenSignatures st) = (d, r, s)" and
    st1: "st1 = \<lparr>rs_filteredOut = rs_filteredOut st
               @ snd (applyConfidenceFilterToFindings (threadFindingsOf ts fl) (policy input))
               @ r,
            rs_findings = rs_findings st @ d,
            runComments = runComments st @ concat (map comments ts),
            seenSignatures = s,
            dedupeCriteriaMet = nd\<rparr>"
    by (rule reviewFile_InrE)
  let ?tf = "threadFindingsOf ts fl"
  have ids: "\<forall>g\<in>set (fst (applyConfidenceFilterToFindings ?tf (policy input))). f_id g = []"
    using confidenceRemaining_no_id by blast
  have r: "\<forall>g\<in>set r. f_id g = []"
    using dedupeAgainstPrevious_result(6) [OF ids c] ids by blast
  have "set (snd (applyConfidenceFilterToFindings ?tf (policy input))) \<subseteq> set ?tf"
    by (cases "conf_enabled (confidence (policy input))")
       (auto simp: applyConfidenceFilter_enabled applyConfidenceFilter_disabled)
  then have f: "\<forall>g\<in>set (snd (applyConfidenceFilterToFindings ?tf (policy input))). f_id g = []"
    using threadFindingsOf_no_id by blast
  have "\<forall>g\<in>set (rs_filteredOut st1). f_id g = []"
    unfolding st1 using Cons.prems(2) r f by auto
  then show ?case using Cons.IH [OF s2] by blast
qed

section \<open>The report of a run\<close>

lemma reviewCode_InrE:
  assumes "ri_files input \<noteq> []" and "reviewCode llm sha parse input = Inr report"
  obtains st where
    "reviewFiles llm sha parse input initialState (ri_files input) = Inr st"
    "findings report = map withoutSource (rs_findings st)"
    "filteredOut report = Some (map withoutSource (rs_filteredOut st))"
    "summaryMarkdown report = summarize (computeSummary (rs_findings st) (rs_filteredOut st))"
proof -
  from assms obtain st where
    st: "reviewFiles llm sha parse input initialState (ri_files input) = Inr st"
    by (auto simp: reviewCode_def split: sum.splits)
  with assms have "report = stripSourceThreads
     \<lparr>summaryMarkdown = summarize (computeSummary (rs_findings st) (rs_filteredOut st)),
      findings = rs_findings st, filteredOut = Some (rs_filteredOut st)\<rparr>"
    by (simp add: reviewCode_def)
  then have "findings report = map withoutSource (rs_findings st)"
    "filteredOut report = Some (map withoutSource (rs_filteredOut st))"
    "summaryMarkdown report = summarize (computeSummary (rs_findings st) (rs_filteredOut st))"
    by (simp_all add: stripSourceThreads_def withoutSource_def)
  with st show thesis by (rule that)
qed

lemma withoutId_withoutSource: "withoutId (withoutSource f) = withoutSource (withoutId f)"
  by (simp add: withoutId_def withoutSource_def)

lemma map_withoutId_withoutSource:
  "map withoutId (map withoutSource xs) = map withoutSource (map withoutId xs)"
  by (induction xs) (simp_all add: withoutId_withoutSource)

text \<open>
  Claim C1, as amended. For an input with at least one file for which the run returns a
  report: the findings of the report, their ids taken away again, and the filtered-out
  findings together are exactly the generated findings as the report shows them, each as
  often as it was generated; so the two lists have as many entries as findings were
  generated, and the summary is the sentence with the length of the findings, the length
  of the filtered-out ones and the sum of the two.
\<close>

theorem reviewCode_partition:
  assumes "ri_files input \<noteq> []" and "reviewCode llm sha parse input = Inr report"
  shows "\<exists>out. filteredOut report = Some out
     \<and> mset (map withoutId (findings report)) + mset out
         = mset (map withoutSource
                   (generatedFindings llm sha parse input initialState (ri_files input)))
     \<and> length (findings report) + length out
         = length (generatedFindings llm sha parse input initialState (ri_files input))
     \<and> summaryMarkdown report
         = ''Findings: '' @ showNat (length (findings report)) @ '' (''
             @ showNat (length out) @ '' filtered out, total generated ''
             @ showNat (length (findings report) + length out) @ '').''"
proof -
  from assms obtain st where
    st: "reviewFiles llm sha parse input initialState (ri_files input) = Inr st" and
    f: "findings report = map withoutSource (rs_findings st)" and
    o: "filteredOut report = Some (map withoutSource (rs_filteredOut st))" and
    s: "summaryMarkdown report = summarize (computeSummary (rs_findings st) (rs_filteredOut st))"
    by (rule reviewCode_InrE)
  let ?gen = "generatedFindings llm sha parse input initialState (ri_files input)"
  let ?out = "map withoutSource (rs_filteredOut st)"
  have part: "mset (map withoutId (rs_findings st)) + mset (rs_filteredOut st) = mset ?gen"
    using reviewFiles_partition [OF st] by (simp add: initialState_def)
  have a1: "mset (map withoutId (rs_findings st) @ rs_filteredOut st) = mset ?gen"
    using part by simp
  have "mset (map withoutId (findings report)) + mset ?out
      = mset (map withoutSource (map withoutId (rs_findings st) @ rs_filteredOut st))"
    unfolding f map_withoutId_withoutSource by simp
  also have "\<dots> = image_mset withoutSource
      (mset (map withoutId (rs_findings st) @ rs_filteredOut st))"
    by (rule mset_map)
  also have "\<dots> = image_mset withoutSource (mset ?gen)"
    unfolding a1 ..
  also have "\<dots> = mset (map withoutSource ?gen)"
    by (rule mset_map [symmetric])
  finally have 1: "mset (map withoutId (findings report)) + mset ?out
      = mset (map withoutSource ?gen)" .
  from part have "size (mset (map withoutId (rs_findings st)) + mset (rs_filteredOut st))
      = size (mset ?gen)" by simp
  then have 2: "length (findings report) + length ?out = length ?gen"
    unfolding f by simp
  have 3: "summaryMarkdown report
         = ''Findings: '' @ showNat (length (findings report)) @ '' (''
             @ showNat (length ?out) @ '' filtered out, total generated ''
             @ showNat (length (findings report) + length ?out) @ '').''"
    unfolding s f by (simp add: summarize_def computeSummary_def)
  show ?thesis
    apply (rule exI [where x = ?out])
    apply (intro conjI)
       apply (rule o)
      apply (rule 1)
     apply (rule 2)
    apply (rule 3)
    done
qed

text \<open>
  The theorem at the input of the repository's engine test: one file, two generated
  findings, none kept, both filtered out.
\<close>

theorem reviewCode_partition_witness:
  "ri_files testInput \<noteq> []
   \<and> summaryOf (reviewCode stubLlm plainDigest noFilesParse testInput)
       = Inr ''Findings: 0 (2 filtered out, total generated 2).''
   \<and> findingContents (reviewCode stubLlm plainDigest noFilesParse testInput) = Inr []
   \<and> filteredContents (reviewCode stubLlm plainDigest noFilesParse testInput)
       = Inr [''Low confidence'', ''Old issue'']
   \<and> map f_content (generatedFindings stubLlm plainDigest noFilesParse testInput initialState
        (ri_files testInput)) = [''Old issue'', ''Low confidence'']"
proof -
  have h1: "ri_files testInput \<noteq> []" by (simp add: testInput_def)
  obtain report where h2: "reviewCode stubLlm plainDigest noFilesParse testInput = Inr report"
    by (simp add: engine_defs example_defs)
  note t = reviewCode_partition [OF h1 h2]
  have r1: "summaryOf (reviewCode stubLlm plainDigest noFilesParse testInput)
       = Inr ''Findings: 0 (2 filtered out, total generated 2).''"
    by (simp add: summaryOf_def engine_defs example_defs)
  have r2: "findingContents (reviewCode stubLlm plainDigest noFilesParse testInput) = Inr []"
    by (simp add: findingContents_def engine_defs example_defs)
  have r3: "filteredContents (reviewCode stubLlm plainDigest noFilesParse testInput)
       = Inr [''Low confidence'', ''Old issue'']"
    by (simp add: filteredContents_def engine_defs example_defs)
  have r4: "map f_content (generatedFindings stubLlm plainDigest noFilesParse testInput
        initialState (ri_files testInput)) = [''Old issue'', ''Low confidence'']"
    by (simp add: engine_defs example_defs)
  show ?thesis using t h1 r1 r2 r3 r4 by (intro conjI) assumption+
qed

text \<open>
  Claim C1 as it is stated fails for the input without files: the report is returned at
  once and its summary is not the sentence with the counts.
\<close>

theorem reviewCode_no_files_counterexample:
  "reviewCode stubLlm plainDigest noFilesParse noFilesInput
     = Inr \<lparr>summaryMarkdown = ''No files to review.'', findings = [], filteredOut = Some []\<rparr>
   \<and> ''No files to review.''
       \<noteq> ''Findings: '' @ showNat (length ([] :: Finding list)) @ '' (''
             @ showNat (length ([] :: Finding list)) @ '' filtered out, total generated ''
             @ showNat (length ([] :: Finding list) + length ([] :: Finding list)) @ '').''"
  by (simp add: reviewCode_def noFilesInput_def showNat.simps digitChar_def)

section \<open>Findings below the minimum confidence never reach the report\<close>

lemma withoutId_confidence [simp]: "f_confidence (withoutId g) = f_confidence g"
  by (simp add: withoutId_def)

lemma withoutSource_fields [simp]:
  "f_confidence (withoutSource g) = f_confidence g"
  "f_id (withoutSource g) = f_id g"
  "f_filePath (withoutSource g) = f_filePath g"
  "f_content (withoutSource g) = f_content g"
  by (simp_all add: withoutSource_def)

lemma reviewFiles_confident:
  assumes "conf_enabled (confidence (policy input))"
  shows "reviewFiles llm sha parse input st fs = Inr st' \<Longrightarrow>
   \<forall>g\<in>set (rs_findings st). \<not> scoreBelow (minimum (confidence (policy input))) (f_confidence g)
   \<Longrightarrow>
   \<forall>g\<in>set (rs_findings st'). \<not> scoreBelow (minimum (confidence (policy input))) (f_confidence g)"
proof (induction fs arbitrary: st)
  case Nil
  then show ?case by simp
next
  case (Cons fl rest)
  let ?m = "minimum (confidence (policy input))"
  from Cons.prems(1) obtain st1 where
    s1: "reviewFile llm sha parse input st fl = Inr st1" and
    s2: "reviewFiles llm sha parse input st1 rest = Inr st'"
    by (auto split: sum.splits)
  from s1 obtain nd ts d r s where
    c: "dedupeAgainstPrevious sha
       (fst (applyConfidenceFilterToFindings (threadFindingsOf ts fl) (policy input)))
       (previousComments input) (seenSignatures st) = (d, r, s)" and
    st1: "st1 = \<lparr>rs_filteredOut = rs_filteredOut st
               @ snd (applyConfidenceFilterToFindings (threadFindingsOf ts fl) (policy input))
               @ r,
            rs_findings = rs_findings st @ d,
            runComments = runComments st @ concat (map comments ts),
            seenSignatures = s,
            dedupeCriteriaMet = nd\<rparr>"
    by (rule reviewFile_InrE)
  let ?rem = "fst (applyConfidenceFilterToFindings (threadFindingsOf ts fl) (policy input))"
  have ids: "\<forall>g\<in>set ?rem. f_id g = []" using confidenceRemaining_no_id by blast
  have "\<forall>g\<in>set d. \<not> scoreBelow ?m (f_confidence g)"
  proof
    fix g assume "g \<in> set d"
    then have "withoutId g \<in> set ?rem"
      using dedupeAgainstPrevious_result(5) [OF ids c] by blast
    then have "\<not> scoreBelow ?m (f_confidence (withoutId g))"
      using applyConfidenceFilter_remaining_ok [OF assms] by blast
    then show "\<not> scoreBelow ?m (f_confidence g)" by simp
  qed
  then have "\<forall>g\<in>set (rs_findings st1). \<not> scoreBelow ?m (f_confidence g)"
    unfolding st1 using Cons.prems(2) by auto
  then show ?case using Cons.IH [OF s2] by blast
qed

lemma reviewCode_confident:
  assumes "conf_enabled (confidence (policy input))"
    and "reviewCode llm sha parse input = Inr report"
    and "f \<in> set (findings report)"
  shows "\<not> scoreBelow (minimum (confidence (policy input))) (f_confidence f)"
proof (cases "ri_files input = []")
  case True
  with assms(2,3) show ?thesis by (auto simp: reviewCode_def)
next
  case False
  from False assms(2) obtain st where
    st: "reviewFiles llm sha parse input initialState (ri_files input) = Inr st" and
    f: "findings report = map withoutSource (rs_findings st)"
    by (rule reviewCode_InrE)
  have "\<forall>g\<in>set (rs_findings st).
      \<not> scoreBelow (minimum (confidence (policy input))) (f_confidence g)"
    using reviewFiles_confident [OF assms(1) st] by (simp add: initialState_def)
  with assms(3) show ?thesis unfolding f by auto
qed

text \<open>
  Claim C7. With the confidence policy disabled the filter keeps every finding and
  filters none out. With it enabled, the findings filtered out are exactly those with a
  confidence value below the minimum, in their order, and the remaining ones are all the
  others: a finding with a value below the minimum is never among the remaining, and a
  finding with no value always is. Hence, with the policy enabled, no finding of a
  report that a run returns has a confidence value below the minimum.
\<close>

theorem applyConfidenceFilterToFindings_spec:
  "(\<not> conf_enabled (confidence pol) \<longrightarrow> applyConfidenceFilterToFindings fs pol = (fs, []))
   \<and> (conf_enabled (confidence pol) \<longrightarrow>
        applyConfidenceFilterToFindings fs pol =
          (filter (\<lambda>f. \<not> scoreBelow (minimum (confidence pol)) (f_confidence f)) fs,
           filter (\<lambda>f. scoreBelow (minimum (confidence pol)) (f_confidence f)) fs)
        \<and> (\<forall>f\<in>set fs. \<forall>c. f_confidence f = Some c \<and> lt c (minimum (confidence pol)) \<longrightarrow>
              f \<in> set (snd (applyConfidenceFilterToFindings fs pol))
              \<and> f \<notin> set (fst (applyConfidenceFilterToFindings fs pol)))
        \<and> (\<forall>f\<in>set fs. f_confidence f = None \<longrightarrow>
              f \<in> set (fst (applyConfidenceFilterToFindings fs pol))
              \<and> f \<notin> set (snd (applyConfidenceFilterToFindings fs pol))))
   \<and> (conf_enabled (confidence (policy input))
        \<and> reviewCode llm sha parse input = Inr report \<longrightarrow>
        (\<forall>f\<in>set (findings report). \<forall>c. f_confidence f = Some c \<longrightarrow>
            \<not> lt c (minimum (confidence (policy input)))))"
proof (intro conjI)
  show "\<not> conf_enabled (confidence pol) \<longrightarrow> applyConfidenceFilterToFindings fs pol = (fs, [])"
    by (simp add: applyConfidenceFilter_disabled)
next
  show "conf_enabled (confidence pol) \<longrightarrow>
        applyConfidenceFilterToFindings fs pol =
          (filter (\<lambda>f. \<not> scoreBelow (minimum (confidence pol)) (f_confidence f)) fs,
           filter (\<lambda>f. scoreBelow (minimum (confidence pol)) (f_confidence f)) fs)
        \<and> (\<forall>f\<in>set fs. \<forall>c. f_confidence f = Some c \<and> lt c (minimum (confidence pol)) \<longrightarrow>
              f \<in> set (snd (applyConfidenceFilterToFindings fs pol))
              \<and> f \<notin> set (fst (applyConfidenceFilterToFindings fs pol)))
        \<and> (\<forall>f\<in>set fs. f_confidence f = None \<longrightarrow>
              f \<in> set (fst (applyConfidenceFilterToFindings fs pol))
              \<and> f \<notin> set (snd (applyConfidenceFilterToFindings fs pol)))"
    by (auto simp: applyConfidenceFilter_enabled scoreBelow_def)
next
  show "conf_enabled (confidence (policy input))
        \<and> reviewCode llm sha parse input = Inr report \<longrightarrow>
        (\<forall>f\<in>set (findings report). \<forall>c. f_confidence f = Some c \<longrightarrow>
            \<not> lt c (minimum (confidence (policy input))))"
  proof (intro impI ballI allI)
    fix f c
    assume a: "conf_enabled (confidence (policy input))
        \<and> reviewCode llm sha parse input = Inr report"
      and f: "f \<in> set (findings report)" and c: "f_confidence f = Some c"
    from a f have "\<not> scoreBelow (minimum (confidence (policy input))) (f_confidence f)"
      using reviewCode_confident by blast
    with c show "\<not> lt c (minimum (confidence (policy input)))"
      by (simp add: scoreBelow_def)
  qed
qed

text \<open>
  The theorem at three findings under the minimum 0.6: the one with confidence 0.2 is
  filtered out, those with confidence 0.9 and with no confidence remain; with the policy
  disabled all three remain. And at the run of the repository's engine test, with the
  minimum 0.8: the finding of confidence 0.9 is in the report, the finding of confidence
  0.1 is filtered out.
\<close>

theorem applyConfidenceFilterToFindings_spec_witness:
  "conf_enabled (confidence examplePolicy)
   \<and> applyConfidenceFilterToFindings
        [exampleFinding ''/a'' ''x'' (Some (decimal 2 1)), exampleFinding ''/a'' ''y'' (Some (decimal 9 1)),
         exampleFinding ''/a'' ''z'' None] examplePolicy
       = ([exampleFinding ''/a'' ''y'' (Some (decimal 9 1)), exampleFinding ''/a'' ''z'' None],
          [exampleFinding ''/a'' ''x'' (Some (decimal 2 1))])
   \<and> \<not> conf_enabled (confidence (examplePolicy\<lparr>confidence := \<lparr>conf_enabled = False, minimum = decimal 6 1\<rparr>\<rparr>))
   \<and> applyConfidenceFilterToFindings
        [exampleFinding ''/a'' ''x'' (Some (decimal 2 1)), exampleFinding ''/a'' ''y'' (Some (decimal 9 1)),
         exampleFinding ''/a'' ''z'' None]
        (examplePolicy\<lparr>confidence := \<lparr>conf_enabled = False, minimum = decimal 6 1\<rparr>\<rparr>)
       = ([exampleFinding ''/a'' ''x'' (Some (decimal 2 1)), exampleFinding ''/a'' ''y'' (Some (decimal 9 1)),
           exampleFinding ''/a'' ''z'' None], [])
   \<and> conf_enabled (confidence (policy freshInput))
   \<and> findingContents (reviewCode stubLlm plainDigest noFilesParse freshInput)
       = Inr [''Old issue'']
   \<and> filteredContents (reviewCode stubLlm plainDigest noFilesParse freshInput)
       = Inr [''Low confidence'']"
proof -
  let ?fs = "[exampleFinding ''/a'' ''x'' (Some (decimal 2 1)),
      exampleFinding ''/a'' ''y'' (Some (decimal 9 1)), exampleFinding ''/a'' ''z'' None]"
  let ?off = "examplePolicy\<lparr>confidence := \<lparr>conf_enabled = False, minimum = decimal 6 1\<rparr>\<rparr>"
  have h1: "conf_enabled (confidence examplePolicy)" by (simp add: examplePolicy_def)
  have h2: "\<not> conf_enabled (confidence ?off)" by simp
  note t1 = applyConfidenceFilterToFindings_spec [of examplePolicy ?fs, THEN conjunct2,
      THEN conjunct1]
  from t1 h1
  have "applyConfidenceFilterToFindings ?fs examplePolicy =
      (filter (\<lambda>f. \<not> scoreBelow (minimum (confidence examplePolicy)) (f_confidence f)) ?fs,
       filter (\<lambda>f. scoreBelow (minimum (confidence examplePolicy)) (f_confidence f)) ?fs)"
    by blast
  then have r1: "applyConfidenceFilterToFindings ?fs examplePolicy
       = ([exampleFinding ''/a'' ''y'' (Some (decimal 9 1)), exampleFinding ''/a'' ''z'' None],
          [exampleFinding ''/a'' ''x'' (Some (decimal 2 1))])"
    by (simp add: scoreBelow_def examplePolicy_def exampleFinding_def decimal_values)
  note t2 = applyConfidenceFilterToFindings_spec [of ?off ?fs, THEN conjunct1]
  from t2 h2
  have r2: "applyConfidenceFilterToFindings ?fs ?off = (?fs, [])"
    by blast
  have h3: "conf_enabled (confidence (policy freshInput))"
    by (simp add: freshInput_def testPolicy_def)
  have r3: "findingContents (reviewCode stubLlm plainDigest noFilesParse freshInput)
       = Inr [''Old issue'']"
    by (simp add: findingContents_def engine_defs example_defs)
  have r4: "filteredContents (reviewCode stubLlm plainDigest noFilesParse freshInput)
       = Inr [''Low confidence'']"
    by (simp add: filteredContents_def engine_defs example_defs)
  show ?thesis using h1 r1 h2 r2 h3 r3 r4 by (intro conjI) assumption+
qed

section \<open>A second run after the findings of the first were posted\<close>

lemma buildLlmRequest_existing:
  "buildLlmRequest p d existing pol = (buildLlmRequest p d [] pol)\<lparr>existingComments := existing\<rparr>"
  by (simp add: buildLlmRequest_def)

lemma sanitizedThreadsOf_stub:
  assumes "ignoresExisting llm"
  shows "sanitizedThreadsOf llm parse input st fl =
     (case fileThreads llm parse (policy input) fl of
        Inl err \<Rightarrow> Inl err
      | Inr ts \<Rightarrow>
          Inr (snd (getCommentContentForExclusion (previousFileComments input fl)
                      (runComments st) (policy input) (dedupeCriteriaMet st)), ts))"
proof -
  obtain existing nd where g: "getCommentContentForExclusion (previousFileComments input fl)
      (runComments st) (policy input) (dedupeCriteriaMet st) = (existing, nd)"
    by (rule prod.exhaust)
  have "llm ((buildLlmRequest (path fl) (diff fl) [] (policy input))
               \<lparr>existingComments := existing\<rparr>)
      = llm (buildLlmRequest (path fl) (diff fl) [] (policy input))"
    using assms unfolding ignoresExisting_def by blast
  then have same: "llm (buildLlmRequest (path fl) (diff fl) existing (policy input))
      = llm (buildLlmRequest (path fl) (diff fl) [] (policy input))"
    unfolding buildLlmRequest_existing [of "path fl" "diff fl" existing "policy input",
      symmetric] .
  show ?thesis
    unfolding sanitizedThreadsOf_def fileThreads_def g prod.case same snd_conv
    by (simp split: sum.splits)
qed

lemma dedupeLoop_all_removed:
  "\<forall>f\<in>set xs. f_id f = [] \<and> contentSignature sha f \<in> P \<Longrightarrow>
   dedupeLoop sha P xs (d0, r0, s0) = (d0, r0 @ xs, s0)"
proof (induction xs arbitrary: r0)
  case Nil
  show ?case by simp
next
  case (Cons x xs)
  then have "findingSignature sha x \<in> P"
    by (simp add: findingSignature_no_id)
  then show ?case using Cons by (simp add: Let_def)
qed

lemma previousSignaturesOf_seeded:
  "previousSignaturesOf sha (Some (seedPrevious fs @ prev))
     = contentSignature sha ` set fs \<union> previousSignaturesOf sha (Some prev)"
  by (auto simp: previousSignaturesOf_def seedPrevious_def contentSignature_def)

lemma previousSignaturesOf_list:
  "previousSignaturesOf sha (previousComments input)
     = previousSignaturesOf sha (Some (previousList input))"
  by (simp add: previousSignaturesOf_def previousList_def split: option.splits)

text \<open>The first run: afterwards the signature of every finding that passed the
  confidence filter is in the run-level set or among those of the previous comments.\<close>

lemma reviewFiles_signatures_known:
  assumes "ignoresExisting llm"
  shows "reviewFiles llm sha parse input st fs = Inr st' \<Longrightarrow>
    seenSignatures st \<subseteq> seenSignatures st'
    \<and> (\<forall>fl\<in>set fs. \<exists>ts. fileThreads llm parse (policy input) fl = Inr ts
          \<and> (\<forall>f\<in>set (fst (applyConfidenceFilterToFindings (threadFindingsOf ts fl)
                             (policy input))).
                contentSignature sha f
                  \<in> seenSignatures st' \<union> previousSignaturesOf sha (previousComments input)))"
proof (induction fs arbitrary: st)
  case Nil
  then show ?case by simp
next
  case (Cons fl rest)
  let ?P = "previousSignaturesOf sha (previousComments input)"
  from Cons.prems obtain st1 where
    s1: "reviewFile llm sha parse input st fl = Inr st1" and
    s2: "reviewFiles llm sha parse input st1 rest = Inr st'"
    by (auto split: sum.splits)
  from s1 obtain nd ts d r s where
    a: "sanitizedThreadsOf llm parse input st fl = Inr (nd, ts)" and
    c: "dedupeAgainstPrevious sha
       (fst (applyConfidenceFilterToFindings (threadFindingsOf ts fl) (policy input)))
       (previousComments input) (seenSignatures st) = (d, r, s)" and
    st1: "st1 = \<lparr>rs_filteredOut = rs_filteredOut st
               @ snd (applyConfidenceFilterToFindings (threadFindingsOf ts fl) (policy input))
               @ r,
            rs_findings = rs_findings st @ d,
            runComments = runComments st @ concat (map comments ts),
            seenSignatures = s,
            dedupeCriteriaMet = nd\<rparr>"
    by (rule reviewFile_InrE)
  let ?rem = "fst (applyConfidenceFilterToFindings (threadFindingsOf ts fl) (policy input))"
  have ft: "fileThreads llm parse (policy input) fl = Inr ts"
    using a sanitizedThreadsOf_stub [OF assms, of parse input st fl]
    by (auto split: sum.splits)
  have ids: "\<forall>g\<in>set ?rem. f_id g = []" using confidenceRemaining_no_id by blast
  have s: "s = seenSignatures st \<union> f_id ` set d"
    using dedupeAgainstPrevious_result(1) [OF ids c] .
  have cover: "seenSignatures st \<union> ?P \<union> f_id ` set d
      = seenSignatures st \<union> ?P \<union> contentSignature sha ` set ?rem"
    using dedupeAgainstPrevious_result(4) [OF ids c] .
  have seen1: "seenSignatures st1 = s" unfolding st1 by simp
  from Cons.IH [OF s2] have mono: "seenSignatures st1 \<subseteq> seenSignatures st'"
    and restok: "\<forall>fl\<in>set rest. \<exists>ts. fileThreads llm parse (policy input) fl = Inr ts
          \<and> (\<forall>f\<in>set (fst (applyConfidenceFilterToFindings (threadFindingsOf ts fl)
                             (policy input))).
                contentSignature sha f \<in> seenSignatures st' \<union> ?P)"
    by blast+
  have here: "\<forall>f\<in>set ?rem. contentSignature sha f \<in> seenSignatures st' \<union> ?P"
  proof
    fix f assume "f \<in> set ?rem"
    then have "contentSignature sha f \<in> seenSignatures st \<union> ?P \<union> f_id ` set d"
      unfolding cover by blast
    then have "contentSignature sha f \<in> s \<union> ?P" unfolding s by blast
    then show "contentSignature sha f \<in> seenSignatures st' \<union> ?P"
      using mono seen1 by blast
  qed
  have 1: "seenSignatures st \<subseteq> seenSignatures st'"
    using mono seen1 s by blast
  have 2: "\<forall>f'\<in>set (fl # rest). \<exists>ts. fileThreads llm parse (policy input) f' = Inr ts
          \<and> (\<forall>f\<in>set (fst (applyConfidenceFilterToFindings (threadFindingsOf ts f')
                             (policy input))).
                contentSignature sha f \<in> seenSignatures st' \<union> ?P)"
    using ft here restok by auto
  from 1 2 show ?case by (rule conjI)
qed

lemma reviewFiles_seen_are_ids:
  "reviewFiles llm sha parse input st fs = Inr st' \<Longrightarrow>
   seenSignatures st \<subseteq> f_id ` set (rs_findings st) \<Longrightarrow>
   \<forall>g\<in>set (rs_findings st). f_id g = contentSignature sha g \<Longrightarrow>
   seenSignatures st' \<subseteq> f_id ` set (rs_findings st')
   \<and> (\<forall>g\<in>set (rs_findings st'). f_id g = contentSignature sha g)"
proof (induction fs arbitrary: st)
  case Nil
  then show ?case by simp
next
  case (Cons fl rest)
  from Cons.prems(1) obtain st1 where
    s1: "reviewFile llm sha parse input st fl = Inr st1" and
    s2: "reviewFiles llm sha parse input st1 rest = Inr st'"
    by (auto split: sum.splits)
  from s1 obtain nd ts d r s where
    c: "dedupeAgainstPrevious sha
       (fst (applyConfidenceFilterToFindings (threadFindingsOf ts fl) (policy input)))
       (previousComments input) (seenSignatures st) = (d, r, s)" and
    st1: "st1 = \<lparr>rs_filteredOut = rs_filteredOut st
               @ snd (applyConfidenceFilterToFindings (threadFindingsOf ts fl) (policy input))
               @ r,
            rs_findings = rs_findings st @ d,
            runComments = runComments st @ concat (map comments ts),
            seenSignatures = s,
            dedupeCriteriaMet = nd\<rparr>"
    by (rule reviewFile_InrE)
  let ?rem = "fst (applyConfidenceFilterToFindings (threadFindingsOf ts fl) (policy input))"
  have ids: "\<forall>g\<in>set ?rem. f_id g = []" using confidenceRemaining_no_id by blast
  have s: "s = seenSignatures st \<union> f_id ` set d"
    using dedupeAgainstPrevious_result(1) [OF ids c] .
  have dsig: "\<forall>g\<in>set d. f_id g = contentSignature sha g"
    using dedupeAgainstPrevious_result(5) [OF ids c] by blast
  have 1: "seenSignatures st1 \<subseteq> f_id ` set (rs_findings st1)"
    unfolding st1 s using Cons.prems(2) by auto
  have 2: "\<forall>g\<in>set (rs_findings st1). f_id g = contentSignature sha g"
    unfolding st1 using Cons.prems(3) dsig by auto
  show ?case using Cons.IH [OF s2 1 2] .
qed

text \<open>The second run: when every such signature is among those of the previous
  comments, every file is reviewed as before and no finding is added.\<close>

lemma reviewFiles_nothing_new:
  assumes "ignoresExisting llm"
  shows "\<forall>fl\<in>set fs. \<exists>ts. fileThreads llm parse (policy input) fl = Inr ts
          \<and> (\<forall>f\<in>set (fst (applyConfidenceFilterToFindings (threadFindingsOf ts fl)
                             (policy input))).
                contentSignature sha f \<in> previousSignaturesOf sha (previousComments input))
    \<Longrightarrow> \<exists>st'. reviewFiles llm sha parse input st fs = Inr st'
          \<and> rs_findings st' = rs_findings st"
proof (induction fs arbitrary: st)
  case Nil
  show ?case by simp
next
  case (Cons fl rest)
  let ?P = "previousSignaturesOf sha (previousComments input)"
  from Cons.prems obtain ts where
    ft: "fileThreads llm parse (policy input) fl = Inr ts" and
    known: "\<forall>f\<in>set (fst (applyConfidenceFilterToFindings (threadFindingsOf ts fl)
                             (policy input))). contentSignature sha f \<in> ?P"
    by auto
  obtain rem filt where
    ac: "applyConfidenceFilterToFindings (threadFindingsOf ts fl) (policy input) = (rem, filt)"
    by (rule prod.exhaust)
  then have rem: "rem = fst (applyConfidenceFilterToFindings (threadFindingsOf ts fl)
      (policy input))" by simp
  let ?nd = "snd (getCommentContentForExclusion (previousFileComments input fl)
                      (runComments st) (policy input) (dedupeCriteriaMet st))"
  have a: "sanitizedThreadsOf llm parse input st fl = Inr (?nd, ts)"
    using sanitizedThreadsOf_stub [OF assms, of parse input st fl] ft by simp
  have ids: "\<forall>g\<in>set rem. f_id g = []" unfolding rem using confidenceRemaining_no_id by blast
  have kn: "\<forall>f\<in>set rem. f_id f = [] \<and> contentSignature sha f \<in> ?P"
    using ids known unfolding rem by blast
  have dd: "dedupeAgainstPrevious sha rem (previousComments input) (seenSignatures st)
      = ([], rem, seenSignatures st)"
    unfolding dedupeAgainstPrevious_def
    using dedupeLoop_all_removed [OF kn, of "[]" "[]" "seenSignatures st"]
    by simp
  define st1 where "st1 = \<lparr>rs_filteredOut = rs_filteredOut st @ filt @ rem,
            rs_findings = rs_findings st @ [],
            runComments = runComments st @ concat (map comments ts),
            seenSignatures = seenSignatures st,
            dedupeCriteriaMet = ?nd\<rparr>"
  have s1: "reviewFile llm sha parse input st fl = Inr st1"
    unfolding reviewFile_def a st1_def by (simp add: ac dd)
  have f1: "rs_findings st1 = rs_findings st" unfolding st1_def by simp
  have "\<forall>fl\<in>set rest. \<exists>ts. fileThreads llm parse (policy input) fl = Inr ts
          \<and> (\<forall>f\<in>set (fst (applyConfidenceFilterToFindings (threadFindingsOf ts fl)
                             (policy input))). contentSignature sha f \<in> ?P)"
    using Cons.prems by simp
  from Cons.IH [OF this, of st1]
  obtain st' where st': "reviewFiles llm sha parse input st1 rest = Inr st'"
    "rs_findings st' = rs_findings st1" by blast
  have "reviewFiles llm sha parse input st (fl # rest) = Inr st'"
    using s1 st'(1) by simp
  moreover have "rs_findings st' = rs_findings st" using st'(2) f1 by simp
  ultimately show ?case by blast
qed

text \<open>
  Claim C9, as amended. Let the review capability ignore the exclusion list, and let a
  first run return a report. Then a second run with the same files and policy, whose
  previous comments are the file path and content of each finding of the first report
  together with the previous comments of the first run, returns a report without
  findings. When the first run had no previous comments, the previous comments of the
  second are the seeded ones alone.
\<close>

theorem rerun_finds_nothing:
  assumes "ignoresExisting llm" and "reviewCode llm sha parse input = Inr first"
  shows "\<exists>second.
     reviewCode llm sha parse
       (input\<lparr>previousComments := Some (seedPrevious (findings first) @ previousList input)\<rparr>)
       = Inr second
     \<and> findings second = []"
proof (cases "ri_files input = []")
  case True
  then show ?thesis by (simp add: reviewCode_def)
next
  case False
  let ?input2 = "input\<lparr>previousComments :=
      Some (seedPrevious (findings first) @ previousList input)\<rparr>"
  let ?P1 = "previousSignaturesOf sha (previousComments input)"
  let ?P2 = "previousSignaturesOf sha (previousComments ?input2)"
  from False assms(2) obtain st where
    st: "reviewFiles llm sha parse input initialState (ri_files input) = Inr st" and
    f: "findings first = map withoutSource (rs_findings st)"
    by (rule reviewCode_InrE)
  have known: "\<forall>fl\<in>set (ri_files input). \<exists>ts. fileThreads llm parse (policy input) fl = Inr ts
          \<and> (\<forall>f\<in>set (fst (applyConfidenceFilterToFindings (threadFindingsOf ts fl)
                             (policy input))).
                contentSignature sha f \<in> seenSignatures st \<union> ?P1)"
    using reviewFiles_signatures_known [OF assms(1) st] by blast
  have i1: "seenSignatures initialState \<subseteq> f_id ` set (rs_findings initialState)"
    by (simp add: initialState_def)
  have i2: "\<forall>g\<in>set (rs_findings initialState). f_id g = contentSignature sha g"
    by (simp add: initialState_def)
  note inv = reviewFiles_seen_are_ids [OF st i1 i2]
  have cs: "contentSignature sha (withoutSource g) = contentSignature sha g" for g
    by (simp add: contentSignature_def)
  have "contentSignature sha ` set (findings first)
      = (\<lambda>g. contentSignature sha (withoutSource g)) ` set (rs_findings st)"
    unfolding f set_map image_image ..
  also have "\<dots> = contentSignature sha ` set (rs_findings st)"
    unfolding cs ..
  also have "\<dots> = f_id ` set (rs_findings st)"
  proof (rule image_cong [OF refl])
    fix g assume "g \<in> set (rs_findings st)"
    then show "contentSignature sha g = f_id g"
      using inv [THEN conjunct2] by (metis)
  qed
  finally have seeds: "contentSignature sha ` set (findings first) = f_id ` set (rs_findings st)" .
  have "previousComments ?input2 = Some (seedPrevious (findings first) @ previousList input)"
    by simp
  then have P2: "?P2 = f_id ` set (rs_findings st) \<union> ?P1"
    unfolding previousSignaturesOf_list [of sha input]
    using previousSignaturesOf_seeded [of sha "findings first" "previousList input"] seeds
    by (simp only:)
  have sub: "seenSignatures st \<union> ?P1 \<subseteq> ?P2"
    unfolding P2 using inv [THEN conjunct1] by blast
  have known2: "\<forall>fl\<in>set (ri_files ?input2). \<exists>ts.
        fileThreads llm parse (policy ?input2) fl = Inr ts
          \<and> (\<forall>f\<in>set (fst (applyConfidenceFilterToFindings (threadFindingsOf ts fl)
                             (policy ?input2))).
                contentSignature sha f \<in> ?P2)"
  proof
    fix fl assume "fl \<in> set (ri_files ?input2)"
    then have "fl \<in> set (ri_files input)" by simp
    with known obtain ts where ts: "fileThreads llm parse (policy input) fl = Inr ts"
      "\<forall>f\<in>set (fst (applyConfidenceFilterToFindings (threadFindingsOf ts fl)
                             (policy input))).
                contentSignature sha f \<in> seenSignatures st \<union> ?P1"
      by blast
    from ts(2) sub have "\<forall>f\<in>set (fst (applyConfidenceFilterToFindings (threadFindingsOf ts fl)
                             (policy input))). contentSignature sha f \<in> ?P2"
      by blast
    with ts(1) show "\<exists>ts. fileThreads llm parse (policy ?input2) fl = Inr ts
          \<and> (\<forall>f\<in>set (fst (applyConfidenceFilterToFindings (threadFindingsOf ts fl)
                             (policy ?input2))).
                contentSignature sha f \<in> ?P2)"
      by auto
  qed
  from reviewFiles_nothing_new [OF assms(1) known2, of initialState]
  obtain st2 where st2: "reviewFiles llm sha parse ?input2 initialState (ri_files ?input2) = Inr st2"
    "rs_findings st2 = rs_findings initialState" by blast
  have ne: "ri_files ?input2 \<noteq> []" using False by simp
  have "reviewCode llm sha parse ?input2 = Inr (stripSourceThreads
     \<lparr>summaryMarkdown = summarize (computeSummary (rs_findings st2) (rs_filteredOut st2)),
      findings = rs_findings st2, filteredOut = Some (rs_filteredOut st2)\<rparr>)"
    unfolding reviewCode_def using ne st2(1) by simp
  moreover have "findings (stripSourceThreads
     \<lparr>summaryMarkdown = summarize (computeSummary (rs_findings st2) (rs_filteredOut st2)),
      findings = rs_findings st2, filteredOut = Some (rs_filteredOut st2)\<rparr>) = []"
    using st2(2) by (simp add: stripSourceThreads_def initialState_def)
  ultimately show ?thesis by blast
qed

text \<open>
  The theorem at the stub of the engine test and the input without previous comments:
  the first run keeps the finding \<^verbatim>\<open>Old issue\<close>, the second run, seeded with it, keeps
  none.
\<close>

theorem rerun_finds_nothing_witness:
  "ignoresExisting stubLlm
   \<and> findingContents (reviewCode stubLlm plainDigest noFilesParse freshInput)
       = Inr [''Old issue'']
   \<and> findingContents (rerunKeeping stubLlm plainDigest noFilesParse freshInput) = Inr []"
proof -
  have h1: "ignoresExisting stubLlm"
    by (simp add: ignoresExisting_def stubLlm_def)
  obtain first where h2: "reviewCode stubLlm plainDigest noFilesParse freshInput = Inr first"
    by (simp add: engine_defs example_defs)
  have r1: "findingContents (reviewCode stubLlm plainDigest noFilesParse freshInput)
       = Inr [''Old issue'']"
    by (simp add: findingContents_def engine_defs example_defs)
  from rerun_finds_nothing [OF h1 h2]
  obtain second where "reviewCode stubLlm plainDigest noFilesParse
       (freshInput\<lparr>previousComments :=
          Some (seedPrevious (findings first) @ previousList freshInput)\<rparr>) = Inr second"
    "findings second = []"
    by blast
  then have r2: "findingContents (rerunKeeping stubLlm plainDigest noFilesParse freshInput)
      = Inr []"
    unfolding rerunKeeping_def findingContents_def h2 by simp
  show ?thesis using h1 r1 r2 by (intro conjI) assumption+
qed

text \<open>
  Claim C9 as it is stated fails when the first run had a previous comment that the
  second run does not get again: in the engine test the finding \<^verbatim>\<open>Old issue\<close> is removed
  in the first run for the previous comment of that content, so the first report has no
  finding and seeds nothing, and the second run reports \<^verbatim>\<open>Old issue\<close>.
\<close>

theorem rerun_seeded_counterexample:
  "ignoresExisting stubLlm
   \<and> findingContents (reviewCode stubLlm plainDigest noFilesParse testInput) = Inr []
   \<and> findingContents (rerunSeeded stubLlm plainDigest noFilesParse testInput)
       = Inr [''Old issue'']"
  by (simp add: ignoresExisting_def findingContents_def rerunSeeded_def seedPrevious_def
      engine_defs example_defs)

section \<open>A previous comment under a path without the leading slash\<close>

lemma normalizePath_slash: "startsWith (normalizePath p) ''/''"
  by (simp add: normalizePath_def startsWith_def)

lemma normalizePath_bare: "\<not> startsWith p ''/'' \<Longrightarrow> normalizePath (''/'' @ p) = normalizePath p"
  by (simp add: normalizePath_def startsWith_def)

text \<open>
  Claim C6 at the input of the engine test with the previous comment filed under
  \<^verbatim>\<open>src/file.ts\<close>, the path of the file as the file list has it. The comment is selected
  for the exclusion list of the file. Its signature is the digest of
  \<^verbatim>\<open>src/file.ts|Old issue\<close>, that of the generated finding is the digest of
  \<^verbatim>\<open>/src/file.ts|Old issue\<close>; unless the two digests collide the finding is not removed
  and is reported under \<^verbatim>\<open>/src/file.ts\<close>, whereas with the previous comment filed under
  \<^verbatim>\<open>/src/file.ts\<close> it is removed.
\<close>

theorem bare_path_not_deduped:
  assumes "sha ''src/file.ts|Old issue'' \<noteq> sha ''/src/file.ts|Old issue''"
  shows "map rc_content (previousFileComments bareInput testFile) = [''Old issue'']
   \<and> findingContents (reviewCode stubLlm sha noFilesParse bareInput) = Inr [''Old issue'']
   \<and> findingPaths (reviewCode stubLlm sha noFilesParse bareInput) = Inr [''/src/file.ts'']
   \<and> findingContents (reviewCode stubLlm sha noFilesParse testInput) = Inr []"
  using assms assms [symmetric]
  by (simp add: findingContents_def findingPaths_def engine_defs stubLlm_def stubThread_def
      noFilesParse_def testPolicy_def testFile_def testInput_def bareInput_def
      exampleComment_def examplePrevious_def decimal_values)

text \<open>The theorem at the digest that returns its text.\<close>

theorem bare_path_not_deduped_witness:
  "plainDigest ''src/file.ts|Old issue'' \<noteq> plainDigest ''/src/file.ts|Old issue''
   \<and> findingContents (reviewCode stubLlm plainDigest noFilesParse bareInput)
       = Inr [''Old issue'']"
proof -
  have h: "plainDigest ''src/file.ts|Old issue'' \<noteq> plainDigest ''/src/file.ts|Old issue''"
    by (simp add: plainDigest_def)
  from bare_path_not_deduped [OF h]
  have r: "findingContents (reviewCode stubLlm plainDigest noFilesParse bareInput)
       = Inr [''Old issue'']"
    by blast
  show ?thesis using h r by (intro conjI) assumption+
qed

section \<open>Further properties of the engine\<close>

text \<open>
  An input without files gives the fixed report, whatever the review capability, the
  digest and the parser are: none of them is called.
\<close>

theorem reviewCode_no_files:
  "reviewCode llm sha parse (input\<lparr>ri_files := []\<rparr>)
     = Inr \<lparr>summaryMarkdown = ''No files to review.'', findings = [], filteredOut = Some []\<rparr>"
  by (simp add: reviewCode_def)

lemma reviewFiles_paths:
  "reviewFiles llm sha parse input st fs = Inr st' \<Longrightarrow>
   \<forall>g\<in>set (rs_findings st) \<union> set (rs_filteredOut st). startsWith (f_filePath g) ''/'' \<Longrightarrow>
   \<forall>g\<in>set (rs_findings st') \<union> set (rs_filteredOut st'). startsWith (f_filePath g) ''/''"
proof (induction fs arbitrary: st)
  case Nil
  then show ?case by simp
next
  case (Cons fl rest)
  from Cons.prems(1) obtain st1 where
    s1: "reviewFile llm sha parse input st fl = Inr st1" and
    s2: "reviewFiles llm sha parse input st1 rest = Inr st'"
    by (auto split: sum.splits)
  from s1 obtain nd ts d r s where
    c: "dedupeAgainstPrevious sha
       (fst (applyConfidenceFilterToFindings (threadFindingsOf ts fl) (policy input)))
       (previousComments input) (seenSignatures st) = (d, r, s)" and
    st1: "st1 = \<lparr>rs_filteredOut = rs_filteredOut st
               @ snd (applyConfidenceFilterToFindings (threadFindingsOf ts fl) (policy input))
               @ r,
            rs_findings = rs_findings st @ d,
            runComments = runComments st @ concat (map comments ts),
            seenSignatures = s,
            dedupeCriteriaMet = nd\<rparr>"
    by (rule reviewFile_InrE)
  let ?tf = "threadFindingsOf ts fl"
  let ?rem = "fst (applyConfidenceFilterToFindings ?tf (policy input))"
  let ?filt = "snd (applyConfidenceFilterToFindings ?tf (policy input))"
  have tf: "\<forall>g\<in>set ?tf. startsWith (f_filePath g) ''/''"
    by (auto simp: threadFindingsOf_def threadToFindings_def commentToFinding_def
        normalizePath_slash)
  have remsub: "set ?rem \<subseteq> set ?tf" by (rule applyConfidenceFilter_subset)
  have filtsub: "set ?filt \<subseteq> set ?tf"
    by (cases "conf_enabled (confidence (policy input))")
       (auto simp: applyConfidenceFilter_enabled applyConfidenceFilter_disabled)
  have ids: "\<forall>g\<in>set ?rem. f_id g = []" using confidenceRemaining_no_id by blast
  have rsub: "set r \<subseteq> set ?rem" using dedupeAgainstPrevious_result(6) [OF ids c] .
  have dprop: "\<forall>g\<in>set d. withoutId g \<in> set ?rem"
    using dedupeAgainstPrevious_result(5) [OF ids c] by blast
  have dpath: "\<forall>g\<in>set d. startsWith (f_filePath g) ''/''"
  proof
    fix g assume "g \<in> set d"
    then have "withoutId g \<in> set ?tf" using dprop remsub by blast
    then have "startsWith (f_filePath (withoutId g)) ''/''" using tf by blast
    then show "startsWith (f_filePath g) ''/''" by (simp add: withoutId_def)
  qed
  have "\<forall>g\<in>set (rs_findings st1) \<union> set (rs_filteredOut st1). startsWith (f_filePath g) ''/''"
    unfolding st1 using Cons.prems(2) dpath tf filtsub rsub remsub by auto
  then show ?case using Cons.IH [OF s2] by blast
qed

text \<open>
  Every finding of a returned report, kept or filtered out, has a file path that begins
  with a slash; and a previous comment is selected for the exclusion list of a file
  whether its path is the path of the file or that path without its leading slash.
\<close>

theorem reviewCode_paths_normalized:
  "(reviewCode llm sha parse input = Inr report \<longrightarrow>
      (\<forall>f\<in>set (findings report). startsWith (f_filePath f) ''/'')
      \<and> (\<forall>f\<in>set (case filteredOut report of None \<Rightarrow> [] | Some out \<Rightarrow> out).
            startsWith (f_filePath f) ''/''))
   \<and> (\<not> startsWith p ''/'' \<longrightarrow>
        map rc_content (previousFileComments
           (input\<lparr>previousComments := Some [examplePrevious p body]\<rparr>)
           (fl\<lparr>path := ''/'' @ p\<rparr>)) = [body]
        \<and> map rc_content (previousFileComments
           (input\<lparr>previousComments := Some [examplePrevious (''/'' @ p) body]\<rparr>)
           (fl\<lparr>path := p\<rparr>)) = [body])"
proof (intro conjI impI)
  assume run: "reviewCode llm sha parse input = Inr report"
  show "\<forall>f\<in>set (findings report). startsWith (f_filePath f) ''/''"
  proof (cases "ri_files input = []")
    case True
    with run show ?thesis by (auto simp: reviewCode_def)
  next
    case False
    from False run obtain st where
      st: "reviewFiles llm sha parse input initialState (ri_files input) = Inr st" and
      f: "findings report = map withoutSource (rs_findings st)"
      by (rule reviewCode_InrE)
    have "\<forall>g\<in>set (rs_findings st) \<union> set (rs_filteredOut st). startsWith (f_filePath g) ''/''"
      using reviewFiles_paths [OF st] by (simp add: initialState_def)
    then show ?thesis unfolding f by auto
  qed
  show "\<forall>f\<in>set (case filteredOut report of None \<Rightarrow> [] | Some out \<Rightarrow> out).
      startsWith (f_filePath f) ''/''"
  proof (cases "ri_files input = []")
    case True
    with run show ?thesis by (auto simp: reviewCode_def)
  next
    case False
    from False run obtain st where
      st: "reviewFiles llm sha parse input initialState (ri_files input) = Inr st" and
      o: "filteredOut report = Some (map withoutSource (rs_filteredOut st))"
      by (rule reviewCode_InrE)
    have "\<forall>g\<in>set (rs_findings st) \<union> set (rs_filteredOut st). startsWith (f_filePath g) ''/''"
      using reviewFiles_paths [OF st] by (simp add: initialState_def)
    then show ?thesis unfolding o by auto
  qed
next
  assume "\<not> startsWith p ''/''"
  then show "map rc_content (previousFileComments
           (input\<lparr>previousComments := Some [examplePrevious p body]\<rparr>)
           (fl\<lparr>path := ''/'' @ p\<rparr>)) = [body]"
    by (simp add: previousFileComments_def examplePrevious_def normalizePath_def
        startsWith_def)
next
  assume "\<not> startsWith p ''/''"
  then show "map rc_content (previousFileComments
           (input\<lparr>previousComments := Some [examplePrevious (''/'' @ p) body]\<rparr>)
           (fl\<lparr>path := p\<rparr>)) = [body]"
    by (simp add: previousFileComments_def examplePrevious_def normalizePath_def
        startsWith_def)
qed

text \<open>The theorem at the run of the engine test and at the path \<^verbatim>\<open>src/file.ts\<close>.\<close>

theorem reviewCode_paths_normalized_witness:
  "findingPaths (reviewCode stubLlm plainDigest noFilesParse freshInput) = Inr [''/src/file.ts'']
   \<and> \<not> startsWith ''src/file.ts'' ''/''
   \<and> map rc_content (previousFileComments bareInput testFile) = [''Old issue'']"
proof -
  obtain report where h: "reviewCode stubLlm plainDigest noFilesParse freshInput = Inr report"
    by (simp add: engine_defs example_defs)
  note t = reviewCode_paths_normalized [where llm = stubLlm and sha = plainDigest
      and parse = noFilesParse and input = freshInput and report = report
      and p = "''src/file.ts''" and body = "''Old issue''" and fl = testFile]
  have r1: "findingPaths (reviewCode stubLlm plainDigest noFilesParse freshInput)
      = Inr [''/src/file.ts'']"
    by (simp add: findingPaths_def engine_defs example_defs)
  have h2: "\<not> startsWith ''src/file.ts'' ''/''" by (simp add: startsWith_def)
  have r2: "map rc_content (previousFileComments bareInput testFile) = [''Old issue'']"
    by (simp add: previousFileComments_def bareInput_def testFile_def examplePrevious_def
        normalizePath_def startsWith_def)
  show ?thesis using t r1 h2 r2 by (intro conjI) assumption+
qed

text \<open>
  The severity of a finding by its issue type, compared without regard to the case of the
  letters: critical for security, high for bugs and performance, medium for best practice,
  for any other type and for none. No finding is of low severity.
\<close>

theorem deriveSeverity_table:
  "deriveSeverity (Some ''SECURITY'') = Critical
   \<and> deriveSeverity (Some ''BUG'') = High
   \<and> deriveSeverity (Some ''PERFORMANCE'') = High
   \<and> deriveSeverity (Some ''BEST_PRACTICE'') = Medium
   \<and> deriveSeverity (Some ''bug'') = High
   \<and> deriveSeverity (Some ''Security'') = Critical
   \<and> deriveSeverity (Some ''STYLE'') = Medium
   \<and> deriveSeverity None = Medium
   \<and> deriveSeverity issue \<noteq> Low"
  by (simp add: deriveSeverity_def toUpperCase_def upperChar_def Let_def)

lemma reviewFile_latch:
  assumes "reviewFile llm sha parse input st fl = Inr st1"
  shows "dedupeCriteriaMet st1
     = snd (getCommentContentForExclusion (previousFileComments input fl) (runComments st)
              (policy input) (dedupeCriteriaMet st))"
proof -
  from assms obtain nd ts d r s where
    a: "sanitizedThreadsOf llm parse input st fl = Inr (nd, ts)" and
    st1: "st1 = \<lparr>rs_filteredOut = rs_filteredOut st
               @ snd (applyConfidenceFilterToFindings (threadFindingsOf ts fl) (policy input))
               @ r,
            rs_findings = rs_findings st @ d,
            runComments = runComments st @ concat (map comments ts),
            seenSignatures = s,
            dedupeCriteriaMet = nd\<rparr>"
    by (rule reviewFile_InrE)
  from a have "nd = snd (getCommentContentForExclusion (previousFileComments input fl)
      (runComments st) (policy input) (dedupeCriteriaMet st))"
    by (auto simp: sanitizedThreadsOf_def split: prod.splits sum.splits)
  then show ?thesis unfolding st1 by simp
qed

lemma latch_monotone:
  "met \<Longrightarrow> snd (getCommentContentForExclusion fileComments run pol met)"
  by (simp add: getCommentContentForExclusion_def Let_def)

text \<open>
  The latch over a run: once it is set it is set after every later file, and with
  cross-file dedup enabled the exclusion list of every later file is the content of the
  previous comments of that file followed by the content of all comments of the run so
  far.
\<close>

theorem latch_stays_set:
  assumes "dedupeCriteriaMet st"
  shows "(reviewFiles llm sha parse input st fs = Inr st' \<longrightarrow> dedupeCriteriaMet st')
   \<and> (dedupe_enabled (dedupeAcrossFiles (policy input)) \<longrightarrow>
        fst (getCommentContentForExclusion (previousFileComments input fl) (runComments st)
               (policy input) (dedupeCriteriaMet st))
          = map rc_content (previousFileComments input fl) @ map rc_content (runComments st))"
proof (intro conjI impI)
  assume "reviewFiles llm sha parse input st fs = Inr st'"
  then show "dedupeCriteriaMet st'" using assms
  proof (induction fs arbitrary: st)
    case Nil
    then show ?case by simp
  next
    case (Cons f rest)
    from Cons.prems(1) obtain st1 where
      s1: "reviewFile llm sha parse input st f = Inr st1" and
      s2: "reviewFiles llm sha parse input st1 rest = Inr st'"
      by (auto split: sum.splits)
    have "dedupeCriteriaMet st1"
      unfolding reviewFile_latch [OF s1] using Cons.prems(2) by (rule latch_monotone)
    with Cons.IH [OF s2] show ?case .
  qed
next
  assume "dedupe_enabled (dedupeAcrossFiles (policy input))"
  then show "fst (getCommentContentForExclusion (previousFileComments input fl) (runComments st)
               (policy input) (dedupeCriteriaMet st))
          = map rc_content (previousFileComments input fl) @ map rc_content (runComments st)"
    using assms by (simp add: getCommentContentForExclusion_def Let_def)
qed

text \<open>
  The theorem at a run over two files with the threshold 0: the comment of confidence 0.9
  of the first file sets the latch before the second file, and it is set at the end.
\<close>

theorem latch_stays_set_witness:
  "dedupe_enabled (dedupeAcrossFiles (policy latchInput))
   \<and> map_sum id dedupeCriteriaMet
        (reviewFiles stubLlm plainDigest noFilesParse latchInput initialState [testFile])
       = Inr False
   \<and> map_sum id dedupeCriteriaMet
        (reviewFiles stubLlm plainDigest noFilesParse latchInput initialState
           [testFile, testFile])
       = Inr True
   \<and> dedupeCriteriaMet (initialState\<lparr>dedupeCriteriaMet := True\<rparr>)
   \<and> map_sum id dedupeCriteriaMet
        (reviewFiles stubLlm plainDigest noFilesParse latchInput
           (initialState\<lparr>dedupeCriteriaMet := True\<rparr>) [testFile])
       = Inr True"
proof -
  let ?st = "initialState\<lparr>dedupeCriteriaMet := True\<rparr>"
  have h1: "dedupe_enabled (dedupeAcrossFiles (policy latchInput))"
    by (simp add: latchInput_def latchPolicy_def)
  have r1: "map_sum id dedupeCriteriaMet
        (reviewFiles stubLlm plainDigest noFilesParse latchInput initialState [testFile])
       = Inr False"
    by (simp add: engine_defs example_defs latchInput_def latchPolicy_def
        filterCommentsByPolicy_remaining scoreBelow_def)
  have r2: "map_sum id dedupeCriteriaMet
        (reviewFiles stubLlm plainDigest noFilesParse latchInput initialState
           [testFile, testFile]) = Inr True"
    by (simp add: engine_defs example_defs latchInput_def latchPolicy_def
        filterCommentsByPolicy_remaining scoreBelow_def)
  have h2: "dedupeCriteriaMet ?st" by simp
  obtain st' where st': "reviewFiles stubLlm plainDigest noFilesParse latchInput ?st [testFile]
      = Inr st'"
    by (simp add: engine_defs example_defs latchInput_def latchPolicy_def)
  from latch_stays_set [OF h2, of stubLlm plainDigest noFilesParse latchInput "[testFile]"
      st' testFile] st'
  have "dedupeCriteriaMet st'" by blast
  with st' have r3: "map_sum id dedupeCriteriaMet
        (reviewFiles stubLlm plainDigest noFilesParse latchInput ?st [testFile]) = Inr True"
    by simp
  show ?thesis using h1 r1 r2 h2 r3 by (intro conjI) assumption+
qed

section \<open>Fixing positions twice\<close>

lemma lineDist_same_line:
  "getLineNumber c side = getLineNumber c' side \<Longrightarrow> lineDist side n c = lineDist side n c'"
  by (simp add: lineDist_def)

lemma lineDist_self:
  "getLineNumber m side = Some (Finite (of_int k)) \<Longrightarrow> lineDist side (Finite (of_int k)) m = Finite 0"
  by (simp add: lineDist_def undefinedToNaN_def round64_def)

lemma lineDist_zero:
  assumes "getLineNumber c side = Some (Finite (of_int j))"
    and "\<not> lt (Finite 0) (lineDist side (Finite (of_int k)) c)"
  shows "j = k"
proof (rule ccontr)
  assume "j \<noteq> k"
  then have "1 \<le> \<bar>of_int (j - k) :: real\<bar>"
    by (simp flip: of_int_abs add: le_floor_iff)
  then have nz: "round64 (of_int (j - k)) \<noteq> Finite 0" by (rule round64_ge_one)
  have d: "lineDist side (Finite (of_int k)) c = mathAbs (round64 (of_int (j - k)))"
    using assms(1) by (simp add: lineDist_def undefinedToNaN_def)
  show False
  proof (cases "round64 (of_int (j - k))")
    case (Finite r)
    with nz have "r \<noteq> 0" by simp
    with assms(2) show False unfolding d Finite by simp
  next
    case NaN
    then show False by simp
  next
    case PosInfinity
    with assms(2) show False unfolding d by simp
  next
    case NegInfinity
    with assms(2) show False unfolding d by simp
  qed
qed

lemma firstClosest_again:
  assumes m: "firstClosest cands side n m" and l: "getLineNumber m side = Some l"
    and m': "firstClosest cands side l m'"
    and whole: "\<forall>c\<in>set cands. wholeLines c"
  shows "m' = m"
proof -
  from m obtain pre post where a: "cands = pre @ m # post"
    "\<forall>x\<in>set pre. lt (lineDist side n m) (lineDist side n x)"
    unfolding firstClosest_def by blast
  from m' obtain pre' post' where b: "cands = pre' @ m' # post'"
    "\<forall>x\<in>set cands. getLineNumber x side \<noteq> None"
    "\<forall>x\<in>set pre'. lt (lineDist side l m') (lineDist side l x)"
    "\<forall>x\<in>set post'. \<not> lt (lineDist side l x) (lineDist side l m')"
    unfolding firstClosest_def by blast
  have "wholeLines m" using whole a(1) by simp
  with l obtain k where k: "l = Finite (of_int k)" using wholeLines_getLineNumber by blast
  have zero: "lineDist side l m = Finite 0" using l unfolding k by (rule lineDist_self)
  have notpre': "m \<notin> set pre'"
  proof
    assume "m \<in> set pre'"
    then have "lt (lineDist side l m') (Finite 0)" using b(3) zero by auto
    then show False by (simp add: lineDist_def)
  qed
  have "m \<in> set cands" using a(1) by simp
  then have "m = m' \<or> m \<in> set post'" using b(1) notpre' by auto
  then have nlt: "\<not> lt (Finite 0) (lineDist side l m')" using b(4) zero by auto
  have "wholeLines m'" "getLineNumber m' side \<noteq> None" using whole b(1,2) by simp_all
  then obtain j where j: "getLineNumber m' side = Some (Finite (of_int j))"
    using wholeLines_getLineNumber by fastforce
  from lineDist_zero [OF j nlt [unfolded k]] have "j = k" .
  with j k l have "getLineNumber m' side = getLineNumber m side" by simp
  then have same: "lineDist side n m' = lineDist side n m" by (rule lineDist_same_line)
  have notpre: "m' \<notin> set pre"
  proof
    assume "m' \<in> set pre"
    then have "lt (lineDist side n m) (lineDist side n m')" using a(2) by blast
    then show False using same by simp
  qed
  from a(1) b(1) have "pre @ m # post = pre' @ m' # post'" by simp
  then have "\<exists>us. pre = pre' @ us \<and> us @ m # post = m' # post'
        \<or> pre @ us = pre' \<and> m # post = us @ m' # post'"
    by (simp only: append_eq_append_conv2)
  then show ?thesis
  proof
    fix us
    assume "pre = pre' @ us \<and> us @ m # post = m' # post'
        \<or> pre @ us = pre' \<and> m # post = us @ m' # post'"
    then show ?thesis
    proof
      assume h: "pre = pre' @ us \<and> us @ m # post = m' # post'"
      show ?thesis
      proof (cases us)
        case Nil
        with h show ?thesis by simp
      next
        case (Cons u us')
        with h have "m' \<in> set pre" by auto
        with notpre show ?thesis by simp
      qed
    next
      assume h: "pre @ us = pre' \<and> m # post = us @ m' # post'"
      show ?thesis
      proof (cases us)
        case Nil
        with h show ?thesis by simp
      next
        case (Cons u us')
        with h have "m \<in> set pre'" by auto
        with notpre' show ?thesis by simp
      qed
    qed
  qed
qed

lemma getLineNumberAndOffset_again:
  assumes "getLineNumberAndOffset d t n side = (Some l, Some off)"
    and whole: "\<forall>c\<in>set (getChangesFromDiff d). wholeLines c"
  shows "getLineNumberAndOffset d t l side = (Some l, Some off)"
proof -
  let ?cands = "filterChanges (getChangesFromDiff d) t side"
  have ne: "?cands \<noteq> []"
    using assms(1) getLineNumberAndOffset_none [of d t side n] by auto
  have wc: "\<forall>c\<in>set ?cands. wholeLines c" using whole filterChanges_member by blast
  have ln: "\<forall>x\<in>set ?cands. wholeLines x \<and> getLineNumber x side \<noteq> None"
    using wc filterChanges_member by blast
  from findClosestLine_firstClosest [OF ne ln, of n]
  obtain m where m: "findClosestLine ?cands n side = Some m" "firstClosest ?cands side n m"
    by blast
  from findClosestLine_firstClosest [OF ne ln, of l]
  obtain m' where m': "findClosestLine ?cands l side = Some m'" "firstClosest ?cands side l m'"
    by blast
  from assms(1) m(1) have lm: "getLineNumber m side = Some l"
    and om: "indexOf (content m) t + 1 = off"
    by (simp_all add: getLineNumberAndOffset_def getGitDiffLine_def)
  have "m' = m" using firstClosest_again [OF m(2) lm m'(2) wc] .
  with m'(1) lm om show ?thesis
    by (simp add: getLineNumberAndOffset_def getGitDiffLine_def)
qed

lemma updateFileEnd_again:
  "updateFileEndForMultilineSnippet
     ((updateFileEndForMultilineSnippet (e\<lparr>line := l, offset := a\<rparr>) snippets d side)
        \<lparr>line := l, offset := a\<rparr>) snippets d side
   = updateFileEndForMultilineSnippet (e\<lparr>line := l, offset := a\<rparr>) snippets d side"
  by (simp add: updateFileEndForMultilineSnippet_def Let_def split: prod.splits option.splits)

lemma updateFileStartAndEnd_again:
  assumes "updateFileStartAndEnd p e d side = Inr (p', e')"
    and whole: "\<forall>c\<in>set (getChangesFromDiff d). wholeLines c"
  shows "updateFileStartAndEnd p' e' d side = Inr (p', e')"
proof -
  from assms obtain snip where snip: "snippet p = Some snip"
    by (auto simp: updateFileStartAndEnd_def split: option.splits)
  let ?first = "hd (split_newlines snip)"
  obtain ln off where g: "getLineNumberAndOffset d ?first (line p) side = (ln, off)"
    by (rule prod.exhaust)
  show ?thesis
  proof (cases "ln = None \<or> off = None")
    case True
    with assms(1) snip g have "p' = p" "e' = e"
      by (auto simp: updateFileStartAndEnd_def Let_def split: option.splits)
    with assms(1) show ?thesis by simp
  next
    case False
    then obtain l a where la: "ln = Some l" "off = Some a" by auto
    from assms(1) snip g la obtain e0 where e0: "e = Some e0"
      by (auto simp: updateFileStartAndEnd_def Let_def split: option.splits)
    let ?e1 = "e0\<lparr>line := l, offset := Finite (of_int (a + int (length ?first)))\<rparr>"
    have p': "p' = p\<lparr>line := l, offset := Finite (of_int a)\<rparr>"
      and e': "e' = Some (if length (split_newlines snip) > 1
                 then updateFileEndForMultilineSnippet ?e1 (split_newlines snip) d side
                 else ?e1)"
      using assms(1) snip g la e0
      by (auto simp: updateFileStartAndEnd_def Let_def split: if_splits)
    have g': "getLineNumberAndOffset d ?first (line p') side = (Some l, Some a)"
      using getLineNumberAndOffset_again [OF g [unfolded la] whole] by (simp add: p')
    have sn: "snippet p' = Some snip" using snip by (simp add: p')
    show ?thesis
    proof (cases "length (split_newlines snip) > 1")
      case True
      then show ?thesis
        unfolding updateFileStartAndEnd_def sn e' using g' p'
        by (simp add: Let_def updateFileEnd_again)
    next
      case False
      then show ?thesis
        unfolding updateFileStartAndEnd_def sn e' using g' p'
        by (simp add: Let_def)
    qed
  qed
qed

lemma setSide_sides [simp]:
  "sideStart (setSide ctx side s e) side = s"
  "sideEnd (setSide ctx side s e) side = e"
  "sideStart (setSide ctx side s e) (\<not> side) = sideStart ctx (\<not> side)"
  "sideEnd (setSide ctx side s e) (\<not> side) = sideEnd ctx (\<not> side)"
  "setSide (setSide ctx side s e) side s' e' = setSide ctx side s' e'"
  by (simp_all add: setSide_def sideStart_def sideEnd_def)

lemma setSide_same: "setSide ctx side (sideStart ctx side) (sideEnd ctx side) = ctx"
  by (simp add: setSide_def sideStart_def sideEnd_def)

lemma fixThreadContext_fixed_point:
  assumes "fixThreadContextLineNumberAndOffsets ctx d side = Inr ctx'"
    and whole: "\<forall>c\<in>set (getChangesFromDiff d). wholeLines c"
  shows "fixThreadContextLineNumberAndOffsets ctx' d side = Inr ctx'
    \<and> sideStart ctx' (\<not> side) = sideStart ctx (\<not> side)
    \<and> sideEnd ctx' (\<not> side) = sideEnd ctx (\<not> side)
    \<and> tc_filePath ctx' = tc_filePath ctx"
proof (cases "hasSnippet (sideStart ctx side)")
  case False
  with assms(1) have "ctx' = ctx"
    by (simp add: fixThreadContextLineNumberAndOffsets_def Let_def)
  with assms(1) show ?thesis by simp
next
  case True
  then obtain p where p: "sideStart ctx side = Some p"
    by (auto simp: hasSnippet_def split: option.splits)
  from assms(1) True p obtain s e where
    u: "updateFileStartAndEnd p (sideEnd ctx side) d side = Inr (s, e)" and
    c': "ctx' = setSide ctx side (Some s) e"
    by (auto simp: fixThreadContextLineNumberAndOffsets_def Let_def split: sum.splits)
  have again: "updateFileStartAndEnd s e d side = Inr (s, e)"
    using updateFileStartAndEnd_again [OF u whole] .
  have "snippet s \<noteq> None"
    using again by (auto simp: updateFileStartAndEnd_def split: option.splits)
  moreover have "snippet s = snippet p"
    using u by (auto simp: updateFileStartAndEnd_def Let_def split: option.splits prod.splits
        if_splits)
  ultimately have hs: "hasSnippet (Some s)"
    using True p by (auto simp: hasSnippet_def split: option.splits)
  have "fixThreadContextLineNumberAndOffsets ctx' d side = Inr (setSide ctx' side (Some s) e)"
    unfolding c' using hs again
    by (simp add: fixThreadContextLineNumberAndOffsets_def Let_def)
  moreover have "setSide ctx' side (Some s) e = ctx'" unfolding c' by simp
  moreover have "tc_filePath ctx' = tc_filePath ctx"
    unfolding c' by (simp add: setSide_def)
  ultimately show ?thesis unfolding c' by simp
qed

lemma fixThreadContext_depends_on_side:
  assumes "fixThreadContextLineNumberAndOffsets ctx d side = Inr ctx"
    and "sideStart c side = sideStart ctx side" and "sideEnd c side = sideEnd ctx side"
  shows "fixThreadContextLineNumberAndOffsets c d side = Inr c"
proof (cases "hasSnippet (sideStart ctx side)")
  case False
  with assms(2) show ?thesis
    by (simp add: fixThreadContextLineNumberAndOffsets_def Let_def)
next
  case True
  then obtain p where p: "sideStart ctx side = Some p"
    by (auto simp: hasSnippet_def split: option.splits)
  from assms(1) True p obtain s e where
    u: "updateFileStartAndEnd p (sideEnd ctx side) d side = Inr (s, e)" and
    c': "ctx = setSide ctx side (Some s) e"
    by (auto simp: fixThreadContextLineNumberAndOffsets_def Let_def split: sum.splits)
  have "sideStart ctx side = Some s" "sideEnd ctx side = e"
    using c' setSide_sides(1,2) by metis+
  then have "setSide c side (Some s) e = c"
    using assms(2,3) setSide_same [of c side] by simp
  then show ?thesis
    using True p u assms(2,3)
    by (simp add: fixThreadContextLineNumberAndOffsets_def Let_def)
qed

text \<open>
  Fixing is idempotent for a parsed diff whose line numbers are whole numbers: a side
  whose positions the fixer has set is returned unchanged when it is fixed again against
  the same diff, and so is a whole thread.
\<close>

theorem fixThread_idempotent:
  assumes whole: "\<forall>c\<in>set (getChangesFromDiff d). wholeLines c"
  shows "(fixThreadContextLineNumberAndOffsets ctx d side = Inr ctx' \<longrightarrow>
      fixThreadContextLineNumberAndOffsets ctx' d side = Inr ctx')
   \<and> (fixThread d thread = Inr thread' \<longrightarrow> fixThread d thread' = Inr thread')"
proof (intro conjI impI)
  assume "fixThreadContextLineNumberAndOffsets ctx d side = Inr ctx'"
  then show "fixThreadContextLineNumberAndOffsets ctx' d side = Inr ctx'"
    using fixThreadContext_fixed_point whole by blast
next
  assume a: "fixThread d thread = Inr thread'"
  show "fixThread d thread' = Inr thread'"
  proof (cases "threadContext thread")
    case None
    with a have "thread' = thread" by (simp add: fixThread_def)
    with a show ?thesis by simp
  next
    case (Some c0)
    from a Some obtain c1 c2 where
      r: "fixThreadContextLineNumberAndOffsets c0 d True = Inr c1" and
      l: "fixThreadContextLineNumberAndOffsets c1 d False = Inr c2" and
      t': "thread' = thread\<lparr>threadContext := Some c2\<rparr>"
      by (auto simp: fixThread_def split: sum.splits)
    have r1: "fixThreadContextLineNumberAndOffsets c1 d True = Inr c1"
      using fixThreadContext_fixed_point [OF r whole] by blast
    have frame: "sideStart c2 True = sideStart c1 True" "sideEnd c2 True = sideEnd c1 True"
      and l2: "fixThreadContextLineNumberAndOffsets c2 d False = Inr c2"
      using fixThreadContext_fixed_point [OF l whole] by simp_all
    have r2: "fixThreadContextLineNumberAndOffsets c2 d True = Inr c2"
      using fixThreadContext_depends_on_side [OF r1 frame] .
    show ?thesis unfolding t' using r2 l2 by (simp add: fixThread_def)
  qed
qed

text \<open>The theorem at the example with the snippet of two lines.\<close>

theorem fixThread_idempotent_witness:
  "list_all wholeLines (getChangesFromDiff exampleDiff)
   \<and> fixThreadContextLineNumberAndOffsets twoLineContext exampleDiff True
     = Inr (twoLineContext
             \<lparr>rightFileStart := Some (twoLineStart\<lparr>line := Finite 2543, offset := Finite 3\<rparr>),
              rightFileEnd := Some (exampleEnd\<lparr>line := Finite 2544, offset := Finite 12\<rparr>)\<rparr>)
   \<and> fixThreadContextLineNumberAndOffsets
       (twoLineContext
          \<lparr>rightFileStart := Some (twoLineStart\<lparr>line := Finite 2543, offset := Finite 3\<rparr>),
           rightFileEnd := Some (exampleEnd\<lparr>line := Finite 2544, offset := Finite 12\<rparr>)\<rparr>)
       exampleDiff True
     = Inr (twoLineContext
             \<lparr>rightFileStart := Some (twoLineStart\<lparr>line := Finite 2543, offset := Finite 3\<rparr>),
              rightFileEnd := Some (exampleEnd\<lparr>line := Finite 2544, offset := Finite 12\<rparr>)\<rparr>)"
proof -
  let ?fixed = "twoLineContext
             \<lparr>rightFileStart := Some (twoLineStart\<lparr>line := Finite 2543, offset := Finite 3\<rparr>),
              rightFileEnd := Some (exampleEnd\<lparr>line := Finite 2544, offset := Finite 12\<rparr>)\<rparr>"
  have h: "list_all wholeLines (getChangesFromDiff exampleDiff)"
    by (simp add: getChangesFromDiff_def exampleDiff_def wholeLines_def wholeNumber_def)
  then have h': "\<forall>c\<in>set (getChangesFromDiff exampleDiff). wholeLines c"
    by (simp add: list_all_iff)
  have r: "fixThreadContextLineNumberAndOffsets twoLineContext exampleDiff True = Inr ?fixed"
    by (simp add: fixer_defs twoLineContext_def twoLineStart_def twoLineSnippet_def
        exampleEnd_def exampleDiff_def)
  from fixThread_idempotent [OF h', of twoLineContext True ?fixed] r
  have r2: "fixThreadContextLineNumberAndOffsets ?fixed exampleDiff True = Inr ?fixed"
    by blast
  show ?thesis using h r r2 by (intro conjI) assumption+
qed

end
